theory Spec2Isabelle
  imports Main
begin

section \<open>Text statistics (stats.cpp)\<close>

subsection \<open>Values shared by both files\<close>

text \<open>
  A character vector is a list of elements; \<open>None\<close> is \<open>NA_STRING\<close>, \<open>Some cs\<close> a
  CHARSXP with the bytes \<open>cs\<close> (\<open>LENGTH\<close> is \<open>length cs\<close>). A code point is a
  \<open>UChar32\<close>, a signed 32-bit number in ICU; the counters are C \<open>int\<close>s. Both are
  modelled as unbounded integers: the code never computes with a code point, and an
  overflowing counter is undefined in C.
\<close>

type_synonym UChar32 = int

type_synonym UErrorCode = int

text \<open>
  Every way a call ends without a value: \<open>error(MSG__NEWLINE_FOUND)\<close>, the
  \<open>default:\<close> branch of the LaTeX switch, \<open>StriException(MSG__INCORRECT_MATCH_OPTION)\<close>
  and \<open>StriException(status)\<close> for a failing ICU status. \<open>NULL_dereference\<close> stands
  for a call through a null \<open>briter\<close>, which C++ leaves undefined; it is a value
  here so that its absence can be stated.
\<close>

datatype error =
    MSG_NEWLINE_FOUND
  | DEBUG_stats_latex
  | MSG_INCORRECT_MATCH_OPTION
  | StriException_status UErrorCode
  | NULL_dereference

subsection \<open>The ICU character interface\<close>

text \<open>
  ICU is not part of the sources, so what the code asks of it is a parameter: the
  four property tests, and the multi-byte branch of the macro \<open>U8_NEXT\<close>.
  \<open>u8_multi U s i len c\<close> is called with the lead byte \<open>c \<ge> 0x80\<close> already read
  and \<open>i\<close> just behind it; it answers the code point (\<open>U_SENTINEL\<close>, that is \<open>-1\<close>,
  for an ill-formed sequence) and how many trail bytes it consumed.
\<close>

datatype UProperty = UCHAR_WHITE_SPACE

record uchar_api =
  u8_multi :: "string \<Rightarrow> nat \<Rightarrow> nat \<Rightarrow> UChar32 \<Rightarrow> UChar32 \<times> nat"
  u_hasBinaryProperty :: "UChar32 \<Rightarrow> UProperty \<Rightarrow> bool"
  u_isUAlphabetic :: "UChar32 \<Rightarrow> bool"
  u_isdigit :: "UChar32 \<Rightarrow> bool"
  u_ispunct :: "UChar32 \<Rightarrow> bool"

text \<open>
  \<open>U8_NEXT(s, i, length, c)\<close>: \<open>c = (uint8_t)s[i++]\<close>, and a byte below \<open>0x80\<close> is
  the code point itself. The caller guarantees \<open>i < length\<close>. The result is the code
  point and the advanced index.
\<close>

definition U8_NEXT :: "uchar_api \<Rightarrow> string \<Rightarrow> nat \<Rightarrow> nat \<Rightarrow> UChar32 \<times> nat" where
  "U8_NEXT U s i len =
     (let c = (of_char (s ! i) :: int) in
      if c < 0x80 then (c, i + 1)
      else (case u8_multi U s (i + 1) len c of (c', k) \<Rightarrow> (c', i + 1 + k)))"

subsection \<open>stri_stats_general\<close>

record gstats =
  gsNumLines :: int
  gsNumLinesNonEmpty :: int
  gsNumChars :: int
  gsNumCharsNonWhite :: int

definition gstats_zero :: gstats where
  "gstats_zero = \<lparr>gsNumLines = 0, gsNumLinesNonEmpty = 0, gsNumChars = 0,
     gsNumCharsNonWhite = 0\<rparr>"

text \<open>The body of the inner loop behind \<open>U8_NEXT\<close>, on the counters and \<open>AnyNonWhite\<close>.\<close>

definition general_char :: "uchar_api \<Rightarrow> UChar32 \<Rightarrow> gstats \<times> bool \<Rightarrow> error + gstats \<times> bool" where
  "general_char U c = (\<lambda>(stats, AnyNonWhite).
     if c = 0x0A then Inl MSG_NEWLINE_FOUND
     else
       let stats = stats\<lparr>gsNumChars := gsNumChars stats + 1\<rparr> in
       if \<not> u_hasBinaryProperty U c UCHAR_WHITE_SPACE
       then Inr (stats\<lparr>gsNumCharsNonWhite := gsNumCharsNonWhite stats + 1\<rparr>, True)
       else Inr (stats, AnyNonWhite))"

text \<open>\<open>for (int j=0; j<cn; ) { U8_NEXT(cs, j, cn, c); ... }\<close>\<close>

function general_chars :: "uchar_api \<Rightarrow> string \<Rightarrow> nat \<Rightarrow> gstats \<times> bool \<Rightarrow> error + gstats \<times> bool" where
  "general_chars U cs j acc =
     (if j < length cs then
        (case U8_NEXT U cs j (length cs) of
           (c, j') \<Rightarrow>
             (case general_char U c acc of
                Inl e \<Rightarrow> Inl e
              | Inr acc' \<Rightarrow> general_chars U cs j' acc'))
      else Inr acc)"
  by pat_completeness auto
termination
  by (relation "measure (\<lambda>(U, cs, j, acc). length cs - j)")
     (auto simp: U8_NEXT_def Let_def split: if_splits prod.splits)

declare general_chars.simps [simp del]

text \<open>The loop over the elements; an \<open>NA_STRING\<close> is skipped by \<open>continue\<close>.\<close>

fun general_elems :: "uchar_api \<Rightarrow> string option list \<Rightarrow> gstats \<Rightarrow> error + gstats" where
  "general_elems U [] stats = Inr stats"
| "general_elems U (None # str) stats = general_elems U str stats"
| "general_elems U (Some cs # str) stats =
     (case general_chars U cs 0 (stats\<lparr>gsNumLines := gsNumLines stats + 1\<rparr>, False) of
        Inl e \<Rightarrow> Inl e
      | Inr (stats', AnyNonWhite) \<Rightarrow>
          general_elems U str
            (if AnyNonWhite
             then stats'\<lparr>gsNumLinesNonEmpty := gsNumLinesNonEmpty stats' + 1\<rparr>
             else stats'))"

definition stri_stats_general :: "uchar_api \<Rightarrow> string option list \<Rightarrow> error + gstats" where
  "stri_stats_general U str = general_elems U str gstats_zero"

subsection \<open>stri_stats_latex\<close>

datatype State =
    stStandard
  | stComment
  | stControlSequence
  | stControlSymbol
  | stCommand
  | stEnvironment

record lstats =
  lsCharsWord :: int
  lsCharsCmdEnvir :: int
  lsCharsWhite :: int
  lsWords :: int
  lsCmd :: int
  lsEnvir :: int

definition lstats_zero :: lstats where
  "lstats_zero = \<lparr>lsCharsWord = 0, lsCharsCmdEnvir = 0, lsCharsWhite = 0, lsWords = 0,
     lsCmd = 0, lsEnvir = 0\<rparr>"

text \<open>
  \<open>!strncmp(cs+j, lit, n)\<close> with \<open>n = length lit\<close>: the buffer of a CHARSXP ends with
  a NUL and holds none before it, and \<open>lit\<close> holds none, so the comparison succeeds
  exactly when the \<open>n\<close> bytes from \<open>j\<close> on exist and are those of \<open>lit\<close>.
\<close>

definition strncmp_eq :: "string \<Rightarrow> nat \<Rightarrow> string \<Rightarrow> bool" where
  "strncmp_eq cs j lit = (take (length lit) (drop j cs) = lit)"

text \<open>
  The \<open>switch(state)\<close> for the code point \<open>c\<close>, with \<open>j\<close> already behind \<open>c\<close>. It
  answers the new \<open>j\<close>, \<open>state\<close>, \<open>word\<close> and counters. \<open>stControlSymbol\<close> has no
  \<open>case\<close> label, so it falls to \<open>default:\<close>.
\<close>

definition latex_switch ::
  "uchar_api \<Rightarrow> string \<Rightarrow> UChar32 \<Rightarrow> nat \<Rightarrow> State \<Rightarrow> bool \<Rightarrow> lstats \<Rightarrow>
     error + nat \<times> State \<times> bool \<times> lstats" where
  "latex_switch U cs c j state word stats =
     (let isLetter = u_isUAlphabetic U c; isNumber = u_isdigit U c in
      case state of
        stStandard \<Rightarrow>
          if c = 0x5C then
            Inr (j, stControlSequence,
              (if j < length cs then
                 (let cnext = fst (U8_NEXT U cs j (length cs));
                      isPunctNext = u_ispunct U cnext in
                  if \<not> isPunctNext \<or> cnext = 0x7E \<or> cnext = 0x5E then False else word)
               else word),
              stats\<lparr>lsCharsCmdEnvir := lsCharsCmdEnvir stats + 1\<rparr>)
          else if c = 0x25 then Inr (j, stComment, word, stats)
          else if isLetter \<or> isNumber then
            (if isLetter \<and> \<not> word
             then Inr (j, stStandard, True,
                    stats\<lparr>lsWords := lsWords stats + 1, lsCharsWord := lsCharsWord stats + 1\<rparr>)
             else Inr (j, stStandard, word, stats\<lparr>lsCharsWord := lsCharsWord stats + 1\<rparr>))
          else Inr (j, stStandard, False, stats\<lparr>lsCharsWhite := lsCharsWhite stats + 1\<rparr>)
      | stControlSequence \<Rightarrow>
          if isLetter then
            (if c = 0x62 \<and> strncmp_eq cs j ''egin'' then
               Inr (j + 4, stEnvironment, word,
                 stats\<lparr>lsEnvir := lsEnvir stats + 1, lsCharsCmdEnvir := lsCharsCmdEnvir stats + 5\<rparr>)
             else if c = 0x65 \<and> strncmp_eq cs j ''nd'' then
               Inr (j + 2, stEnvironment, word,
                 stats\<lparr>lsCharsCmdEnvir := lsCharsCmdEnvir stats + 3\<rparr>)
             else
               Inr (j, stCommand, word,
                 stats\<lparr>lsCmd := lsCmd stats + 1, lsCharsCmdEnvir := lsCharsCmdEnvir stats + 1\<rparr>))
          else
            Inr (j, stStandard, word,
              stats\<lparr>lsCmd := lsCmd stats + 1, lsCharsCmdEnvir := lsCharsCmdEnvir stats + 1\<rparr>)
      | stCommand \<Rightarrow>
          if isLetter then
            Inr (j, stCommand, word, stats\<lparr>lsCharsCmdEnvir := lsCharsCmdEnvir stats + 1\<rparr>)
          else if c = 0x5C then
            Inr (j, stControlSequence, word,
              stats\<lparr>lsCharsCmdEnvir := lsCharsCmdEnvir stats + 1\<rparr>)
          else if c = 0x25 then Inr (j, stComment, word, stats)
          else Inr (j, stStandard, word, stats\<lparr>lsCharsWhite := lsCharsWhite stats + 1\<rparr>)
      | stEnvironment \<Rightarrow>
          if c = 0x7D then
            Inr (j, stStandard, word, stats\<lparr>lsCharsCmdEnvir := lsCharsCmdEnvir stats + 1\<rparr>)
          else if c = 0x25 then Inr (j, stComment, word, stats)
          else Inr (j, stEnvironment, word,
                 stats\<lparr>lsCharsCmdEnvir := lsCharsCmdEnvir stats + 1\<rparr>)
      | stComment \<Rightarrow> Inr (j, stComment, word, stats)
      | stControlSymbol \<Rightarrow> Inl DEBUG_stats_latex)"

text \<open>
  One turn of \<open>for (int j=0; j<cn; )\<close>, entered with \<open>j < cn\<close>: decode, test for the
  line feed, switch.
\<close>

definition latex_iter ::
  "uchar_api \<Rightarrow> string \<Rightarrow> nat \<Rightarrow> State \<Rightarrow> bool \<Rightarrow> lstats \<Rightarrow>
     error + nat \<times> State \<times> bool \<times> lstats" where
  "latex_iter U cs j state word stats =
     (case U8_NEXT U cs j (length cs) of
        (c, j') \<Rightarrow>
          if c = 0x0A then Inl MSG_NEWLINE_FOUND
          else latex_switch U cs c j' state word stats)"

lemma latex_switch_advance:
  "latex_switch U cs c j state word stats = Inr (j', r) \<Longrightarrow> j \<le> j'"
  by (auto simp: latex_switch_def Let_def split: State.splits if_splits)

lemma U8_NEXT_advance: "U8_NEXT U s i len = (c, i') \<Longrightarrow> i < i'"
  by (auto simp: U8_NEXT_def Let_def split: if_splits prod.splits)

lemma latex_iter_advance:
  "latex_iter U cs j state word stats = Inr (j', r) \<Longrightarrow> j < j'"
  by (auto simp: latex_iter_def split: prod.splits if_splits
      dest!: latex_switch_advance U8_NEXT_advance)

function latex_chars ::
  "uchar_api \<Rightarrow> string \<Rightarrow> nat \<Rightarrow> State \<Rightarrow> bool \<Rightarrow> lstats \<Rightarrow> error + lstats" where
  "latex_chars U cs j state word stats =
     (if j < length cs then
        (case latex_iter U cs j state word stats of
           Inl e \<Rightarrow> Inl e
         | Inr (j', state', word', stats') \<Rightarrow> latex_chars U cs j' state' word' stats')
      else Inr stats)"
  by pat_completeness auto
termination
  by (relation "measure (\<lambda>(U, cs, j, state, word, stats). length cs - j)")
     (auto dest: latex_iter_advance)

declare latex_chars.simps [simp del]

text \<open>
  The same loop, recording the value of \<open>state\<close> each time the loop condition is
  tested: the states the scan of one element passes through, the first one first.
\<close>

function latex_states ::
  "uchar_api \<Rightarrow> string \<Rightarrow> nat \<Rightarrow> State \<Rightarrow> bool \<Rightarrow> lstats \<Rightarrow> State list" where
  "latex_states U cs j state word stats =
     state #
     (if j < length cs then
        (case latex_iter U cs j state word stats of
           Inl e \<Rightarrow> []
         | Inr (j', state', word', stats') \<Rightarrow> latex_states U cs j' state' word' stats')
      else [])"
  by pat_completeness auto
termination
  by (relation "measure (\<lambda>(U, cs, j, state, word, stats). length cs - j)")
     (auto dest: latex_iter_advance)

declare latex_states.simps [simp del]

text \<open>
  The loop over the elements. \<open>state\<close> and \<open>word\<close> start afresh for each element; the
  counters carry on.
\<close>

fun latex_elems :: "uchar_api \<Rightarrow> string option list \<Rightarrow> lstats \<Rightarrow> error + lstats" where
  "latex_elems U [] stats = Inr stats"
| "latex_elems U (None # str) stats = latex_elems U str stats"
| "latex_elems U (Some cs # str) stats =
     (case latex_chars U cs 0 stStandard False stats of
        Inl e \<Rightarrow> Inl e
      | Inr stats' \<Rightarrow> latex_elems U str stats')"

definition stri_stats_latex :: "uchar_api \<Rightarrow> string option list \<Rightarrow> error + lstats" where
  "stri_stats_latex U str = latex_elems U str lstats_zero"

section \<open>Boundary location (stri_search_other_locate.cpp)\<close>

subsection \<open>The ICU break iterator\<close>

text \<open>
  ICU's boundary analysis is a parameter too. For a locale, a kind of iterator
  (\<open>0\<close> character, \<open>1\<close> line, \<open>2\<close> sentence, \<open>3\<close> word, the order of
  \<open>boundary_opts\<close>) and a text it fixes the status each call sets, what \<open>first()\<close>
  returns, and the boundaries \<open>next()\<close> returns one by one before \<open>DONE\<close>, each with
  the rule status \<open>getRuleStatus()\<close> reports behind it.
\<close>

record brk_api =
  createInstance_status :: "string \<Rightarrow> nat \<Rightarrow> UErrorCode"
  utext_openUTF8_status :: "string \<Rightarrow> UErrorCode"
  setText_status :: "string \<Rightarrow> nat \<Rightarrow> string \<Rightarrow> UErrorCode"
  brk_first :: "string \<Rightarrow> nat \<Rightarrow> string \<Rightarrow> int"
  brk_next :: "string \<Rightarrow> nat \<Rightarrow> string \<Rightarrow> (int \<times> int) list"

text \<open>
  The constants of ICU's headers that the code names: \<open>U_ZERO_ERROR\<close> is \<open>0\<close>,
  \<open>U_FAILURE(x)\<close> is \<open>x > U_ZERO_ERROR\<close>, \<open>BreakIterator::DONE\<close> is \<open>-1\<close> and
  \<open>UBRK_WORD_NONE\<close> is \<open>0\<close>.
\<close>

definition U_ZERO_ERROR :: UErrorCode where
  "U_ZERO_ERROR = 0"

definition U_FAILURE :: "UErrorCode \<Rightarrow> bool" where
  "U_FAILURE x = (x > U_ZERO_ERROR)"

definition DONE :: int where
  "DONE = -1"

definition UBRK_WORD_NONE :: int where
  "UBRK_WORD_NONE = 0"

text \<open>
  A \<open>BreakIterator\<close> object: the locale and kind it was created for, the text bound
  to it, the boundaries \<open>next()\<close> has yet to return, and the rule status of the
  boundary it returned last. \<open>createInstance loc kind\<close> stands for
  \<open>createCharacterInstance\<close>, \<open>createLineInstance\<close>, \<open>createSentenceInstance\<close> and
  \<open>createWordInstance\<close>, by the kind. The methods \<open>setText\<close>, \<open>first\<close>, \<open>next\<close> and
  \<open>getRuleStatus\<close> carry the prefix \<open>briter_\<close>: binding a text and \<open>first()\<close>
  both put the iterator before the first boundary of the bound text, \<open>next()\<close>
  returns the next boundary and remembers its rule status.
\<close>

record BreakIterator =
  bi_loc :: string
  bi_kind :: nat
  bi_text :: string
  bi_pending :: "(int \<times> int) list"
  bi_ruleStatus :: int

definition createInstance :: "string \<Rightarrow> nat \<Rightarrow> BreakIterator" where
  "createInstance loc kind =
     \<lparr>bi_loc = loc, bi_kind = kind, bi_text = [], bi_pending = [], bi_ruleStatus = 0\<rparr>"

definition briter_setText :: "brk_api \<Rightarrow> BreakIterator \<Rightarrow> string \<Rightarrow> BreakIterator" where
  "briter_setText I briter s =
     briter\<lparr>bi_text := s, bi_pending := brk_next I (bi_loc briter) (bi_kind briter) s\<rparr>"

definition briter_first :: "brk_api \<Rightarrow> BreakIterator \<Rightarrow> int \<times> BreakIterator" where
  "briter_first I briter =
     (brk_first I (bi_loc briter) (bi_kind briter) (bi_text briter),
      briter\<lparr>bi_pending := brk_next I (bi_loc briter) (bi_kind briter) (bi_text briter)\<rparr>)"

definition briter_next :: "BreakIterator \<Rightarrow> int \<times> BreakIterator" where
  "briter_next briter =
     (case bi_pending briter of
        [] \<Rightarrow> (DONE, briter)
      | (match, status) # rest \<Rightarrow>
          (match, briter\<lparr>bi_pending := rest, bi_ruleStatus := status\<rparr>))"

definition briter_getRuleStatus :: "BreakIterator \<Rightarrow> int" where
  "briter_getRuleStatus briter = bi_ruleStatus briter"

subsection \<open>Helpers of the package that are not among the sources\<close>

text \<open>
  Modelled from the spec: \<open>stri__match_arg\<close> is defined outside the two source
  files. Section 6: the accepted labels are the four of \<open>boundary_opts\<close> and any other
  label is refused; the code reads a negative result as the refusal and the result
  otherwise as the position of the label among the options.
\<close>

fun stri_match_arg :: "string \<Rightarrow> string list \<Rightarrow> int" where
  "stri_match_arg opt [] = -1"
| "stri_match_arg opt (x # xs) =
     (if opt = x then 0
      else (let r = stri_match_arg opt xs in if r < 0 then -1 else r + 1))"

definition boundary_opts :: "string list" where
  "boundary_opts = [''character'', ''line-break'', ''sentence'', ''word'']"

text \<open>
  Modelled from the spec: \<open>stri__recycling_rule\<close> and the containers
  \<open>StriContainerUTF8\<close> are defined outside the two source files. Sections 3 and 6: the
  batch is as long as the longer vector, the element and the label of index \<open>i\<close>
  are selected by cyclic indexing; section 5: the elements are visited in index
  order. An empty vector gives an empty batch, as cyclic indexing needs an element;
  so \<open>cont_get\<close> is only ever applied to a vector that has one.
\<close>

definition stri_recycling_rule :: "nat \<Rightarrow> nat \<Rightarrow> nat" where
  "stri_recycling_rule ns nb = (if ns = 0 \<or> nb = 0 then 0 else max ns nb)"

definition cont_get :: "'a list \<Rightarrow> nat \<Rightarrow> 'a" where
  "cont_get xs i = xs ! (i mod length xs)"

text \<open>
  \<open>stri__matrix_NA_INTEGER(1, 2)\<close> is the one-row matrix of \<open>NA_integer_\<close>; any other
  result is a matrix with one row \<open>(start, end)\<close> for each interval.
\<close>

datatype locate_result = NA_matrix | Matrix "(int \<times> int) list"

text \<open>
  \<open>StriContainerUTF8_indexable::UTF8_to_UChar32_index\<close> is not among the sources
  either; it is the parameter \<open>M\<close> of the functions below, called as the code calls
  it: with the text, the intervals and the two adjustments.
\<close>

type_synonym index_mapper = "string \<Rightarrow> (int \<times> int) list \<Rightarrow> int \<Rightarrow> int \<Rightarrow> (int \<times> int) list"

subsection \<open>stri_locate_boundaries\<close>

text \<open>
  \<open>while ((match = briter->next()) != BreakIterator::DONE)\<close>: every boundary closes
  the interval that the boundary before it opened.
\<close>

function boundaries_matches ::
  "BreakIterator \<Rightarrow> int \<Rightarrow> (int \<times> int) list \<Rightarrow> (int \<times> int) list \<times> BreakIterator" where
  "boundaries_matches briter last_match occurences =
     (case briter_next briter of
        (match, briter') \<Rightarrow>
          if match \<noteq> DONE
          then boundaries_matches briter' match (occurences @ [(last_match, match)])
          else (occurences, briter'))"
  by pat_completeness auto
termination
  by (relation "measure (\<lambda>(briter, last_match, occurences). length (bi_pending briter))")
     (auto simp: briter_next_def split: list.splits)

declare boundaries_matches.simps [simp del]

text \<open>
  \<open>if (last_boundary != boundary_cur)\<close>: the iterator is deleted and one of the new kind
  created; the \<open>switch\<close> has the cases \<open>0\<close> to \<open>3\<close> and leaves \<open>briter\<close> null and
  \<open>status\<close> untouched for any other value. Otherwise the iterator is reused.
\<close>

definition open_briter ::
  "brk_api \<Rightarrow> string \<Rightarrow> BreakIterator option \<times> int \<Rightarrow> int \<Rightarrow>
     error + BreakIterator option \<times> int" where
  "open_briter I loc st boundary_cur =
     (case st of
        (briter, last_boundary) \<Rightarrow>
          if last_boundary \<noteq> boundary_cur then
            (if 0 \<le> boundary_cur \<and> boundary_cur \<le> 3 then
               (let status = createInstance_status I loc (nat boundary_cur) in
                if U_FAILURE status then Inl (StriException_status status)
                else Inr (Some (createInstance loc (nat boundary_cur)), boundary_cur))
             else Inr (None, boundary_cur))
          else Inr (briter, last_boundary))"

text \<open>
  The body of the loop for one index: the element \<open>str_i\<close>, its label \<open>boundary_i\<close>,
  and the variables \<open>briter\<close> and \<open>last_boundary\<close> that live across the turns.
\<close>

definition boundaries_elem ::
  "brk_api \<Rightarrow> index_mapper \<Rightarrow> string \<Rightarrow> BreakIterator option \<times> int \<Rightarrow>
     string option \<Rightarrow> string option \<Rightarrow>
     error + locate_result \<times> BreakIterator option \<times> int" where
  "boundaries_elem I M loc st str_i boundary_i =
     (case (str_i, boundary_i) of
        (Some s, Some b) \<Rightarrow>
          if length s = 0 then Inr (NA_matrix, st)
          else
            (let boundary_cur = stri_match_arg b boundary_opts in
             if boundary_cur < 0 then Inl MSG_INCORRECT_MATCH_OPTION
             else
               (case open_briter I loc st boundary_cur of
                  Inl e \<Rightarrow> Inl e
                | Inr (briter, last_boundary) \<Rightarrow>
                    if U_FAILURE (utext_openUTF8_status I s)
                    then Inl (StriException_status (utext_openUTF8_status I s))
                    else
                      (case briter of
                         None \<Rightarrow> Inl NULL_dereference
                       | Some briter \<Rightarrow>
                           if U_FAILURE (setText_status I (bi_loc briter) (bi_kind briter) s)
                           then Inl (StriException_status
                                  (setText_status I (bi_loc briter) (bi_kind briter) s))
                           else
                             (case briter_first I (briter_setText I briter s) of
                                (last_match, briter) \<Rightarrow>
                                  (case boundaries_matches briter last_match [] of
                                     (occurences, briter) \<Rightarrow>
                                       Inr (Matrix (M s occurences 1 0),
                                            Some briter, last_boundary))))))
      | _ \<Rightarrow> Inr (NA_matrix, st))"

fun boundaries_elems ::
  "brk_api \<Rightarrow> index_mapper \<Rightarrow> string \<Rightarrow> string option list \<Rightarrow> string option list \<Rightarrow>
     nat list \<Rightarrow> BreakIterator option \<times> int \<Rightarrow> error + locate_result list" where
  "boundaries_elems I M loc str boundary [] st = Inr []"
| "boundaries_elems I M loc str boundary (i # idx) st =
     (case boundaries_elem I M loc st (cont_get str i) (cont_get boundary i) of
        Inl e \<Rightarrow> Inl e
      | Inr (ans, st') \<Rightarrow>
          (case boundaries_elems I M loc str boundary idx st' of
             Inl e \<Rightarrow> Inl e
           | Inr ret \<Rightarrow> Inr (ans # ret)))"

definition stri_locate_boundaries ::
  "brk_api \<Rightarrow> index_mapper \<Rightarrow> string option list \<Rightarrow> string option list \<Rightarrow> string \<Rightarrow>
     error + locate_result list" where
  "stri_locate_boundaries I M str boundary qloc =
     (let vectorize_length = stri_recycling_rule (length str) (length boundary)
      in boundaries_elems I M qloc str boundary [0..<vectorize_length] (None, -1))"

subsection \<open>stri_locate_words\<close>

text \<open>The same loop, keeping an interval only when its rule status is not \<open>UBRK_WORD_NONE\<close>.\<close>

function words_matches ::
  "BreakIterator \<Rightarrow> int \<Rightarrow> (int \<times> int) list \<Rightarrow> (int \<times> int) list \<times> BreakIterator" where
  "words_matches briter last_match occurences =
     (case briter_next briter of
        (match, briter') \<Rightarrow>
          if match \<noteq> DONE
          then
            (let breakType = briter_getRuleStatus briter' in
             words_matches briter' match
               (if breakType \<noteq> UBRK_WORD_NONE
                then occurences @ [(last_match, match)]
                else occurences))
          else (occurences, briter'))"
  by pat_completeness auto
termination
  by (relation "measure (\<lambda>(briter, last_match, occurences). length (bi_pending briter))")
     (auto simp: briter_next_def split: list.splits)

declare words_matches.simps [simp del]

definition words_elem ::
  "brk_api \<Rightarrow> index_mapper \<Rightarrow> BreakIterator \<Rightarrow> string option \<Rightarrow>
     error + locate_result \<times> BreakIterator" where
  "words_elem I M briter str_i =
     (case str_i of
        None \<Rightarrow> Inr (NA_matrix, briter)
      | Some s \<Rightarrow>
          if U_FAILURE (utext_openUTF8_status I s)
          then Inl (StriException_status (utext_openUTF8_status I s))
          else if U_FAILURE (setText_status I (bi_loc briter) (bi_kind briter) s)
          then Inl (StriException_status (setText_status I (bi_loc briter) (bi_kind briter) s))
          else
            (case briter_first I (briter_setText I briter s) of
               (last_match, briter) \<Rightarrow>
                 (case words_matches briter last_match [] of
                    (occurences, briter) \<Rightarrow>
                      if int (length occurences) \<le> 0 then Inr (NA_matrix, briter)
                      else Inr (Matrix (M s occurences 1 0), briter))))"

fun words_elems ::
  "brk_api \<Rightarrow> index_mapper \<Rightarrow> string option list \<Rightarrow> BreakIterator \<Rightarrow>
     error + locate_result list" where
  "words_elems I M [] briter = Inr []"
| "words_elems I M (str_i # str) briter =
     (case words_elem I M briter str_i of
        Inl e \<Rightarrow> Inl e
      | Inr (ans, briter') \<Rightarrow>
          (case words_elems I M str briter' of
             Inl e \<Rightarrow> Inl e
           | Inr ret \<Rightarrow> Inr (ans # ret)))"

definition stri_locate_words ::
  "brk_api \<Rightarrow> index_mapper \<Rightarrow> string option list \<Rightarrow> string \<Rightarrow> error + locate_result list" where
  "stri_locate_words I M str qloc =
     (let status = createInstance_status I qloc 3 in
      if U_FAILURE status then Inl (StriException_status status)
      else words_elems I M str (createInstance qloc 3))"

section \<open>Instances of the interfaces for running the model\<close>

text \<open>
  ICU and the index mapper are parameters of the model. The closed examples below
  are evaluated on the following instances of them, which stand in for ICU on ASCII
  text and are no part of the sources.

  The character interface on the Basic Latin block: the ICU tables for U+0000 to
  U+007F (White_Space, Alphabetic, Nd, and the general categories P for
  \<open>u_ispunct\<close>), every property false beyond it, and every byte from \<open>0x80\<close> on
  read as an ill-formed sequence of one byte (\<open>U_SENTINEL\<close>).
\<close>

definition ascii_api :: uchar_api where
  "ascii_api = \<lparr>
     u8_multi = (\<lambda>s i len c. (-1, 0)),
     u_hasBinaryProperty = (\<lambda>c p. (9 \<le> c \<and> c \<le> 13) \<or> c = 32),
     u_isUAlphabetic = (\<lambda>c. (0x41 \<le> c \<and> c \<le> 0x5A) \<or> (0x61 \<le> c \<and> c \<le> 0x7A)),
     u_isdigit = (\<lambda>c. 0x30 \<le> c \<and> c \<le> 0x39),
     u_ispunct = (\<lambda>c. c \<in> {0x21, 0x22, 0x23, 0x25, 0x26, 0x27, 0x28, 0x29, 0x2A, 0x2C,
       0x2D, 0x2E, 0x2F, 0x3A, 0x3B, 0x3F, 0x40, 0x5B, 0x5C, 0x5D, 0x5F, 0x7B, 0x7D})\<rparr>"

text \<open>
  A break engine for ASCII text that never fails. Its character and line iterators
  put a boundary behind every byte; its sentence iterator puts one at the end of the
  text; its word iterator closes a run of letters and digits with the status
  \<open>200\<close> (\<open>UBRK_WORD_LETTER\<close>) and puts a boundary of status \<open>0\<close> behind every other
  byte.
\<close>

definition ascii_alnum :: "char \<Rightarrow> bool" where
  "ascii_alnum ch = (u_isUAlphabetic ascii_api (of_char ch) \<or> u_isdigit ascii_api (of_char ch))"

fun ascii_words :: "string \<Rightarrow> int \<Rightarrow> (int \<times> int) list" where
  "ascii_words [] pos = []"
| "ascii_words [ch] pos = [(pos + 1, if ascii_alnum ch then 200 else 0)]"
| "ascii_words (ch # ch' # s) pos =
     (if ascii_alnum ch \<and> ascii_alnum ch' then ascii_words (ch' # s) (pos + 1)
      else (pos + 1, if ascii_alnum ch then 200 else 0) # ascii_words (ch' # s) (pos + 1))"

definition ascii_brk :: brk_api where
  "ascii_brk = \<lparr>
     createInstance_status = (\<lambda>loc kind. 0),
     utext_openUTF8_status = (\<lambda>s. 0),
     setText_status = (\<lambda>loc kind s. 0),
     brk_first = (\<lambda>loc kind s. 0),
     brk_next = (\<lambda>loc kind s.
       if kind = 3 then ascii_words s 0
       else if kind = 2 then (if s = [] then [] else [(int (length s), 0)])
       else map (\<lambda>k. (int k + 1, 0)) [0..<length s])\<rparr>"

text \<open>
  An index mapper for ASCII text, where a byte offset is the number of code points
  before it: it adds the first adjustment to every start and the second to every
  end.
\<close>

definition ascii_index :: index_mapper where
  "ascii_index s occurences adj1 adj2 = map (\<lambda>(b, e). (b + adj1, e + adj2)) occurences"

section \<open>Notions used in the statements and proofs\<close>

text \<open>
  What the statements about the line feed ask of ICU's \<open>U8_NEXT\<close>: the bytes its
  multi-byte branch consumes behind the lead byte are bytes from \<open>0x80\<close> on, as
  trail bytes are. A line feed is therefore never swallowed by a sequence.
\<close>

definition u8_trail_bytes :: "uchar_api \<Rightarrow> bool" where
  "u8_trail_bytes U =
     (\<forall>s i len c m. m < snd (u8_multi U s i len c) \<longrightarrow> (0x80 :: int) \<le> of_char (s ! (i + m)))"

text \<open>
  The candidate intervals of a text: every boundary the engine reports closes the
  interval that the boundary before it opened (\<open>first()\<close> opens the first one) and
  gives it its rule status. The engine's report ends at the first \<open>DONE\<close>.
\<close>

fun candidates :: "int \<Rightarrow> (int \<times> int) list \<Rightarrow> ((int \<times> int) \<times> int) list" where
  "candidates last_match [] = []"
| "candidates last_match ((match, status) # ms) =
     ((last_match, match), status) # candidates match ms"

definition engine_intervals ::
  "brk_api \<Rightarrow> string \<Rightarrow> nat \<Rightarrow> string \<Rightarrow> ((int \<times> int) \<times> int) list" where
  "engine_intervals I loc kind s =
     candidates (brk_first I loc kind s)
       (takeWhile (\<lambda>(m, st). m \<noteq> DONE) (brk_next I loc kind s))"



text \<open>
  What the loop of \<open>stri_locate_boundaries\<close> keeps true of \<open>briter\<close> and
  \<open>last_boundary\<close>: no iterator yet and \<open>-1\<close>, or an iterator of the kind
  \<open>last_boundary\<close> whose creation succeeded.
\<close>

definition briter_inv :: "brk_api \<Rightarrow> string \<Rightarrow> BreakIterator option \<times> int \<Rightarrow> bool" where
  "briter_inv I loc st =
     (case st of
        (None, last_boundary) \<Rightarrow> last_boundary = -1
      | (Some briter, last_boundary) \<Rightarrow>
          0 \<le> last_boundary \<and> bi_kind briter = nat last_boundary \<and> bi_loc briter = loc
          \<and> \<not> U_FAILURE (createInstance_status I loc (nat last_boundary)))"

text \<open>
  The result of one element of \<open>stri_locate_boundaries\<close> written without the
  iterator: it depends on the element, its label and ICU only.
\<close>

definition boundaries_result ::
  "brk_api \<Rightarrow> index_mapper \<Rightarrow> string \<Rightarrow> string option \<Rightarrow> string option \<Rightarrow>
     error + locate_result" where
  "boundaries_result I M loc str_i boundary_i =
     (case (str_i, boundary_i) of
        (Some s, Some b) \<Rightarrow>
          if s = [] then Inr NA_matrix
          else
            (let k = stri_match_arg b boundary_opts in
             if k < 0 then Inl MSG_INCORRECT_MATCH_OPTION
             else if U_FAILURE (createInstance_status I loc (nat k))
             then Inl (StriException_status (createInstance_status I loc (nat k)))
             else if U_FAILURE (utext_openUTF8_status I s)
             then Inl (StriException_status (utext_openUTF8_status I s))
             else if U_FAILURE (setText_status I loc (nat k) s)
             then Inl (StriException_status (setText_status I loc (nat k) s))
             else Inr (Matrix (M s (map fst (engine_intervals I loc (nat k) s)) 1 0)))
      | _ \<Rightarrow> Inr NA_matrix)"

text \<open>A list of results as a call returns it: the first error, or all the values.\<close>

fun collect_results :: "(error + 'a) list \<Rightarrow> error + 'a list" where
  "collect_results [] = Inr []"
| "collect_results (Inl e # rs) = Inl e"
| "collect_results (Inr a # rs) =
     (case collect_results rs of Inl e \<Rightarrow> Inl e | Inr as \<Rightarrow> Inr (a # as))"

text \<open>The result of one element of \<open>stri_locate_words\<close>, written without the iterator.\<close>

definition words_result ::
  "brk_api \<Rightarrow> index_mapper \<Rightarrow> string \<Rightarrow> string option \<Rightarrow> error + locate_result" where
  "words_result I M loc str_i =
     (case str_i of
        None \<Rightarrow> Inr NA_matrix
      | Some s \<Rightarrow>
          if U_FAILURE (utext_openUTF8_status I s)
          then Inl (StriException_status (utext_openUTF8_status I s))
          else if U_FAILURE (setText_status I loc 3 s)
          then Inl (StriException_status (setText_status I loc 3 s))
          else
            (let kept = map fst (filter (\<lambda>(iv, st). st \<noteq> UBRK_WORD_NONE)
                                   (engine_intervals I loc 3 s))
             in if kept = [] then Inr NA_matrix else Inr (Matrix (M s kept 1 0))))"

text \<open>
  The code points \<open>U8_NEXT\<close> reads from a text, from the index \<open>j\<close> on: what the
  inner loop of \<open>stri_stats_general\<close> sees when no line feed stops it.
\<close>

function u8_codepoints :: "uchar_api \<Rightarrow> string \<Rightarrow> nat \<Rightarrow> UChar32 list" where
  "u8_codepoints U cs j =
     (if j < length cs then
        (case U8_NEXT U cs j (length cs) of (c, j') \<Rightarrow> c # u8_codepoints U cs j')
      else [])"
  by pat_completeness auto
termination
  by (relation "measure (\<lambda>(U, cs, j). length cs - j)")
     (auto simp: U8_NEXT_def Let_def split: if_splits prod.splits)

declare u8_codepoints.simps [simp del]

text \<open>Adding two records counter by counter, and the sum of a list of records.\<close>

definition gstats_add :: "gstats \<Rightarrow> gstats \<Rightarrow> gstats" where
  "gstats_add a b =
     \<lparr>gsNumLines = gsNumLines a + gsNumLines b,
      gsNumLinesNonEmpty = gsNumLinesNonEmpty a + gsNumLinesNonEmpty b,
      gsNumChars = gsNumChars a + gsNumChars b,
      gsNumCharsNonWhite = gsNumCharsNonWhite a + gsNumCharsNonWhite b\<rparr>"

definition lstats_add :: "lstats \<Rightarrow> lstats \<Rightarrow> lstats" where
  "lstats_add a b =
     \<lparr>lsCharsWord = lsCharsWord a + lsCharsWord b,
      lsCharsCmdEnvir = lsCharsCmdEnvir a + lsCharsCmdEnvir b,
      lsCharsWhite = lsCharsWhite a + lsCharsWhite b,
      lsWords = lsWords a + lsWords b,
      lsCmd = lsCmd a + lsCmd b,
      lsEnvir = lsEnvir a + lsEnvir b\<rparr>"

definition gstats_sum :: "gstats list \<Rightarrow> gstats" where
  "gstats_sum rs = foldr gstats_add rs gstats_zero"

definition lstats_sum :: "lstats list \<Rightarrow> lstats" where
  "lstats_sum rs = foldr lstats_add rs lstats_zero"



section \<open>Properties of the statistics\<close>

subsection \<open>One accumulator for the whole vector\<close>

lemma general_elems_append:
  "general_elems U (xs @ ys) stats =
     (case general_elems U xs stats of Inl e \<Rightarrow> Inl e | Inr stats' \<Rightarrow> general_elems U ys stats')"
proof (induction xs arbitrary: stats)
  case Nil
  show ?case by simp
next
  case (Cons x xs)
  show ?case by (cases x) (auto simp: Cons.IH split: sum.splits)
qed

lemma latex_elems_append:
  "latex_elems U (xs @ ys) stats =
     (case latex_elems U xs stats of Inl e \<Rightarrow> Inl e | Inr stats' \<Rightarrow> latex_elems U ys stats')"
proof (induction xs arbitrary: stats)
  case Nil
  show ?case by simp
next
  case (Cons x xs)
  show ?case by (cases x) (auto simp: Cons.IH split: sum.splits)
qed

lemma general_elems_NA: "general_elems U (replicate n None) stats = Inr stats"
  by (induction n) auto

lemma latex_elems_NA: "latex_elems U (replicate n None) stats = Inr stats"
  by (induction n) auto

lemma general_elems_filter:
  "general_elems U (filter (\<lambda>s. s \<noteq> None) str) stats = general_elems U str stats"
proof (induction str arbitrary: stats)
  case Nil
  show ?case by simp
next
  case (Cons x str)
  then show ?case by (cases x) (auto split: sum.splits)
qed

lemma latex_elems_filter:
  "latex_elems U (filter (\<lambda>s. s \<noteq> None) str) stats = latex_elems U str stats"
proof (induction str arbitrary: stats)
  case Nil
  show ?case by simp
next
  case (Cons x str)
  then show ?case by (cases x) (auto split: sum.splits)
qed

lemma gstats_add_zero [simp]: "gstats_add gstats_zero a = a" "gstats_add a gstats_zero = a"
  by (simp_all add: gstats_add_def gstats_zero_def)

lemma lstats_add_zero [simp]: "lstats_add lstats_zero a = a" "lstats_add a lstats_zero = a"
  by (simp_all add: lstats_add_def lstats_zero_def)

lemma gstats_add_assoc: "gstats_add (gstats_add a b) c = gstats_add a (gstats_add b c)"
  by (simp add: gstats_add_def)

lemma lstats_add_assoc: "lstats_add (lstats_add a b) c = lstats_add a (lstats_add b c)"
  by (simp add: lstats_add_def)

lemma general_char_shift:
  "general_char U c (gstats_add d stats, anw) =
     map_sum id (\<lambda>(s, a). (gstats_add d s, a)) (general_char U c (stats, anw))"
  by (simp add: general_char_def gstats_add_def Let_def)

lemma general_chars_shift:
  "general_chars U cs j (gstats_add d stats, anw) =
     map_sum id (\<lambda>(s, a). (gstats_add d s, a)) (general_chars U cs j (stats, anw))"
proof (induction U cs j "(stats, anw)" arbitrary: stats anw rule: general_chars.induct)
  case (1 U cs j)
  show ?case
  proof (cases "j < length cs")
    case False
    then show ?thesis by (subst (1 2) general_chars.simps) simp
  next
    case True
    obtain c j' where nx: "U8_NEXT U cs j (length cs) = (c, j')"
      by (cases "U8_NEXT U cs j (length cs)") auto
    show ?thesis
    proof (cases "general_char U c (stats, anw)")
      case (Inl e)
      with True nx show ?thesis
        by (subst (1 2) general_chars.simps) (simp add: general_char_shift)
    next
      case (Inr acc')
      obtain s' a' where acc': "acc' = (s', a')" by (cases acc') auto
      from "1.hyps" [OF True nx [symmetric] Inr [unfolded acc']] True nx Inr acc'
      show ?thesis
        by (subst (1 2) general_chars.simps) (simp add: general_char_shift)
    qed
  qed
qed

lemma general_elems_shift:
  "general_elems U str (gstats_add d stats) =
     map_sum id (gstats_add d) (general_elems U str stats)"
proof (induction str arbitrary: stats)
  case Nil
  show ?case by simp
next
  case (Cons x str)
  show ?case
  proof (cases x)
    case None
    with Cons show ?thesis by simp
  next
    case (Some cs)
    have l: "(gstats_add d stats)\<lparr>gsNumLines := gsNumLines (gstats_add d stats) + 1\<rparr> =
        gstats_add d (stats\<lparr>gsNumLines := gsNumLines stats + 1\<rparr>)"
      by (simp add: gstats_add_def)
    have n: "(gstats_add d s)\<lparr>gsNumLinesNonEmpty := gsNumLinesNonEmpty (gstats_add d s) + 1\<rparr> =
        gstats_add d (s\<lparr>gsNumLinesNonEmpty := gsNumLinesNonEmpty s + 1\<rparr>)" for s
      by (simp add: gstats_add_def)
    show ?thesis
    proof (cases "general_chars U cs 0 (stats\<lparr>gsNumLines := gsNumLines stats + 1\<rparr>, False)")
      case (Inl e)
      with Some show ?thesis by (simp add: l general_chars_shift)
    next
      case (Inr acc)
      obtain s a where acc: "acc = (s, a)" by (cases acc) auto
      with Some Inr Cons.IH show ?thesis
        by (simp add: l n general_chars_shift)
    qed
  qed
qed

lemma general_elems_from_zero:
  "general_elems U str stats = map_sum id (gstats_add stats) (general_elems U str gstats_zero)"
  using general_elems_shift [of U str stats gstats_zero] by simp

lemma stri_stats_general_Cons:
  "stri_stats_general U (x # str) =
     (case stri_stats_general U [x] of
        Inl e \<Rightarrow> Inl e
      | Inr a \<Rightarrow> map_sum id (gstats_add a) (stri_stats_general U str))"
proof -
  have "general_elems U ([x] @ str) gstats_zero =
      (case general_elems U [x] gstats_zero of Inl e \<Rightarrow> Inl e
       | Inr a \<Rightarrow> general_elems U str a)"
    by (rule general_elems_append)
  then show ?thesis
    unfolding stri_stats_general_def
    by (simp add: general_elems_from_zero [of U str, symmetric] split: sum.splits)
qed

lemma stri_stats_general_sum:
  "stri_stats_general U str =
     map_sum id gstats_sum (collect_results (map (\<lambda>x. stri_stats_general U [x]) str))"
proof (induction str)
  case Nil
  show ?case by (simp add: stri_stats_general_def gstats_sum_def)
next
  case (Cons x str)
  show ?case
  proof (cases "stri_stats_general U [x]")
    case (Inl e)
    then show ?thesis by (subst stri_stats_general_Cons) simp
  next
    case (Inr a)
    then show ?thesis
      by (subst stri_stats_general_Cons)
         (cases "collect_results (map (\<lambda>x. stri_stats_general U [x]) str)";
          simp add: Cons.IH gstats_sum_def)
  qed
qed


lemma latex_switch_shift:
  "latex_switch U cs c j state word (lstats_add d stats) =
     map_sum id (\<lambda>(j', state', word', s). (j', state', word', lstats_add d s))
       (latex_switch U cs c j state word stats)"
  by (cases state) (simp_all add: latex_switch_def lstats_add_def Let_def)

lemma latex_iter_shift:
  "latex_iter U cs j state word (lstats_add d stats) =
     map_sum id (\<lambda>(j', state', word', s). (j', state', word', lstats_add d s))
       (latex_iter U cs j state word stats)"
  by (simp add: latex_iter_def latex_switch_shift split: prod.splits)

lemma latex_chars_shift:
  "latex_chars U cs j state word (lstats_add d stats) =
     map_sum id (lstats_add d) (latex_chars U cs j state word stats)"
proof (induction U cs j state word stats rule: latex_chars.induct)
  case (1 U cs j state word stats)
  show ?case
  proof (cases "j < length cs")
    case False
    then show ?thesis by (subst (1 2) latex_chars.simps) simp
  next
    case True
    show ?thesis
    proof (cases "latex_iter U cs j state word stats")
      case (Inl e)
      with True show ?thesis
        by (subst (1 2) latex_chars.simps) (simp add: latex_iter_shift)
    next
      case (Inr r)
      obtain j' state' word' stats' where r: "r = (j', state', word', stats')"
        by (cases r) auto
      from "1.IH" [OF True Inr [unfolded r] refl refl refl] True Inr r
      show ?thesis
        by (subst (1 2) latex_chars.simps) (simp add: latex_iter_shift id_def)
    qed
  qed
qed

lemma latex_elems_shift:
  "latex_elems U str (lstats_add d stats) = map_sum id (lstats_add d) (latex_elems U str stats)"
proof (induction str arbitrary: stats)
  case Nil
  show ?case by simp
next
  case (Cons x str)
  show ?case
  proof (cases x)
    case None
    with Cons show ?thesis by simp
  next
    case (Some cs)
    with Cons.IH show ?thesis
      by (cases "latex_chars U cs 0 stStandard False stats") (simp_all add: latex_chars_shift)
  qed
qed

lemma latex_elems_from_zero:
  "latex_elems U str stats = map_sum id (lstats_add stats) (latex_elems U str lstats_zero)"
  using latex_elems_shift [of U str stats lstats_zero] by simp

lemma stri_stats_latex_Cons:
  "stri_stats_latex U (x # str) =
     (case stri_stats_latex U [x] of
        Inl e \<Rightarrow> Inl e
      | Inr a \<Rightarrow> map_sum id (lstats_add a) (stri_stats_latex U str))"
proof -
  have "latex_elems U ([x] @ str) lstats_zero =
      (case latex_elems U [x] lstats_zero of Inl e \<Rightarrow> Inl e
       | Inr a \<Rightarrow> latex_elems U str a)"
    by (rule latex_elems_append)
  then show ?thesis
    unfolding stri_stats_latex_def
    by (simp add: latex_elems_from_zero [of U str, symmetric] split: sum.splits)
qed

lemma stri_stats_latex_sum:
  "stri_stats_latex U str =
     map_sum id lstats_sum (collect_results (map (\<lambda>x. stri_stats_latex U [x]) str))"
proof (induction str)
  case Nil
  show ?case by (simp add: stri_stats_latex_def lstats_sum_def)
next
  case (Cons x str)
  show ?case
  proof (cases "stri_stats_latex U [x]")
    case (Inl e)
    then show ?thesis by (subst stri_stats_latex_Cons) simp
  next
    case (Inr a)
    then show ?thesis
      by (subst stri_stats_latex_Cons)
         (cases "collect_results (map (\<lambda>x. stri_stats_latex U [x]) str)";
          simp add: Cons.IH lstats_sum_def)
  qed
qed

lemma general_chars_codepoints:
  "general_chars U cs j (stats, anw) =
     (let cps = u8_codepoints U cs j;
          nw = filter (\<lambda>c. \<not> u_hasBinaryProperty U c UCHAR_WHITE_SPACE) cps
      in if 0x0A \<in> set cps then Inl MSG_NEWLINE_FOUND
         else Inr (stats\<lparr>gsNumChars := gsNumChars stats + int (length cps),
                          gsNumCharsNonWhite := gsNumCharsNonWhite stats + int (length nw)\<rparr>,
                   anw \<or> nw \<noteq> []))"
proof (induction U cs j "(stats, anw)" arbitrary: stats anw rule: general_chars.induct)
  case (1 U cs j)
  show ?case
  proof (cases "j < length cs")
    case False
    then show ?thesis
      by (subst general_chars.simps, subst u8_codepoints.simps) simp
  next
    case True
    obtain c j' where nx: "U8_NEXT U cs j (length cs) = (c, j')"
      by (cases "U8_NEXT U cs j (length cs)") auto
    have cps: "u8_codepoints U cs j = c # u8_codepoints U cs j'"
      using True nx by (subst u8_codepoints.simps) simp
    show ?thesis
    proof (cases "general_char U c (stats, anw)")
      case (Inl e)
      then have "c = 0x0A" by (auto simp: general_char_def Let_def split: if_splits)
      with Inl True nx show ?thesis
        by (subst general_chars.simps) (auto simp: cps Let_def general_char_def)
    next
      case (Inr acc')
      obtain s' a' where acc': "acc' = (s', a')" by (cases acc') auto
      from Inr have c: "c \<noteq> 0x0A" by (auto simp: general_char_def)
      from "1.hyps" [OF True nx [symmetric] Inr [unfolded acc']] True nx Inr acc' c
      show ?thesis
        by (subst general_chars.simps)
           (auto simp: cps Let_def general_char_def split: if_splits)
    qed
  qed
qed

lemma stri_stats_general_single:
  "stri_stats_general U [Some cs] =
     (let cps = u8_codepoints U cs 0;
          nw = filter (\<lambda>c. \<not> u_hasBinaryProperty U c UCHAR_WHITE_SPACE) cps
      in if 0x0A \<in> set cps then Inl MSG_NEWLINE_FOUND
         else Inr \<lparr>gsNumLines = 1,
                   gsNumLinesNonEmpty = (if nw = [] then 0 else 1),
                   gsNumChars = int (length cps),
                   gsNumCharsNonWhite = int (length nw)\<rparr>)"
  by (simp add: stri_stats_general_def general_chars_codepoints Let_def gstats_zero_def)

lemma stri_stats_latex_single:
  "stri_stats_latex U [Some cs] = latex_chars U cs 0 stStandard False lstats_zero"
  by (cases "latex_chars U cs 0 stStandard False lstats_zero")
     (simp_all add: stri_stats_latex_def)

text \<open>
  Claim C6. \<open>stri_stats_general\<close> and \<open>stri_stats_latex\<close> answer one record for the
  whole vector, and its counters add up over the elements: the record of a call is
  the sum, counter by counter, of the records of the calls on each element alone,
  and the call fails with the first element that fails alone. An \<open>NA\<close> element
  alone gives the record of zeros, so it adds nothing to any counter. An element
  that is not \<open>NA\<close> and holds no line feed gives, in \<open>stri_stats_general\<close>, one line,
  its code points and those that are not white space; in \<open>stri_stats_latex\<close> the
  counters of its scan from the state \<open>stStandard\<close>. Hence the counters reached
  behind the elements \<open>xs\<close> are the ones the elements \<open>ys\<close> go on from, dropping the
  \<open>NA\<close> elements changes no result, and a vector of \<open>NA\<close> elements only gives the
  record of zeros.
\<close>

theorem stats_single_accumulator_skips_NA:
  "stri_stats_general U str =
     map_sum id gstats_sum (collect_results (map (\<lambda>x. stri_stats_general U [x]) str))
   \<and> stri_stats_latex U str =
     map_sum id lstats_sum (collect_results (map (\<lambda>x. stri_stats_latex U [x]) str))
   \<and> stri_stats_general U [None] = Inr gstats_zero
   \<and> stri_stats_latex U [None] = Inr lstats_zero
   \<and> stri_stats_general U [Some cs] =
     (let cps = u8_codepoints U cs 0;
          nw = filter (\<lambda>c. \<not> u_hasBinaryProperty U c UCHAR_WHITE_SPACE) cps
      in if 0x0A \<in> set cps then Inl MSG_NEWLINE_FOUND
         else Inr \<lparr>gsNumLines = 1,
                   gsNumLinesNonEmpty = (if nw = [] then 0 else 1),
                   gsNumChars = int (length cps),
                   gsNumCharsNonWhite = int (length nw)\<rparr>)
   \<and> stri_stats_latex U [Some cs] = latex_chars U cs 0 stStandard False lstats_zero
   \<and> stri_stats_general U (xs @ ys) =
     (case stri_stats_general U xs of Inl e \<Rightarrow> Inl e | Inr stats \<Rightarrow> general_elems U ys stats)
   \<and> stri_stats_latex U (xs @ ys) =
     (case stri_stats_latex U xs of Inl e \<Rightarrow> Inl e | Inr stats \<Rightarrow> latex_elems U ys stats)
   \<and> stri_stats_general U (filter (\<lambda>s. s \<noteq> None) str) = stri_stats_general U str
   \<and> stri_stats_latex U (filter (\<lambda>s. s \<noteq> None) str) = stri_stats_latex U str
   \<and> stri_stats_general U (replicate n None) = Inr gstats_zero
   \<and> stri_stats_latex U (replicate n None) = Inr lstats_zero"
proof (intro conjI)
  show "stri_stats_general U str =
     map_sum id gstats_sum (collect_results (map (\<lambda>x. stri_stats_general U [x]) str))"
    by (rule stri_stats_general_sum)
  show "stri_stats_latex U str =
     map_sum id lstats_sum (collect_results (map (\<lambda>x. stri_stats_latex U [x]) str))"
    by (rule stri_stats_latex_sum)
  show "stri_stats_general U [None] = Inr gstats_zero"
    by (simp add: stri_stats_general_def)
  show "stri_stats_latex U [None] = Inr lstats_zero"
    by (simp add: stri_stats_latex_def)
  show "stri_stats_general U [Some cs] =
     (let cps = u8_codepoints U cs 0;
          nw = filter (\<lambda>c. \<not> u_hasBinaryProperty U c UCHAR_WHITE_SPACE) cps
      in if 0x0A \<in> set cps then Inl MSG_NEWLINE_FOUND
         else Inr \<lparr>gsNumLines = 1,
                   gsNumLinesNonEmpty = (if nw = [] then 0 else 1),
                   gsNumChars = int (length cps),
                   gsNumCharsNonWhite = int (length nw)\<rparr>)"
    by (rule stri_stats_general_single)
  show "stri_stats_latex U [Some cs] = latex_chars U cs 0 stStandard False lstats_zero"
    by (rule stri_stats_latex_single)
  show "stri_stats_general U (xs @ ys) =
     (case stri_stats_general U xs of Inl e \<Rightarrow> Inl e | Inr stats \<Rightarrow> general_elems U ys stats)"
    unfolding stri_stats_general_def by (rule general_elems_append)
  show "stri_stats_latex U (xs @ ys) =
     (case stri_stats_latex U xs of Inl e \<Rightarrow> Inl e | Inr stats \<Rightarrow> latex_elems U ys stats)"
    unfolding stri_stats_latex_def by (rule latex_elems_append)
  show "stri_stats_general U (filter (\<lambda>s. s \<noteq> None) str) = stri_stats_general U str"
    unfolding stri_stats_general_def by (rule general_elems_filter)
  show "stri_stats_latex U (filter (\<lambda>s. s \<noteq> None) str) = stri_stats_latex U str"
    unfolding stri_stats_latex_def by (rule latex_elems_filter)
  show "stri_stats_general U (replicate n None) = Inr gstats_zero"
    unfolding stri_stats_general_def by (rule general_elems_NA)
  show "stri_stats_latex U (replicate n None) = Inr lstats_zero"
    unfolding stri_stats_latex_def by (rule latex_elems_NA)
qed

theorem stats_single_accumulator_skips_NA_witness:
  "stri_stats_general ascii_api [Some ''ab cd''] =
     Inr \<lparr>gsNumLines = 1, gsNumLinesNonEmpty = 1, gsNumChars = 5, gsNumCharsNonWhite = 4\<rparr>
   \<and> stri_stats_general ascii_api [Some ''e''] =
     Inr \<lparr>gsNumLines = 1, gsNumLinesNonEmpty = 1, gsNumChars = 1, gsNumCharsNonWhite = 1\<rparr>
   \<and> stri_stats_general ascii_api [Some ''ab cd'', None, Some ''e''] =
     Inr \<lparr>gsNumLines = 2, gsNumLinesNonEmpty = 2, gsNumChars = 6, gsNumCharsNonWhite = 5\<rparr>
   \<and> stri_stats_latex ascii_api [Some ''ab cd''] =
     Inr \<lparr>lsCharsWord = 4, lsCharsCmdEnvir = 0, lsCharsWhite = 1, lsWords = 2, lsCmd = 0,
          lsEnvir = 0\<rparr>
   \<and> stri_stats_latex ascii_api [Some ''e''] =
     Inr \<lparr>lsCharsWord = 1, lsCharsCmdEnvir = 0, lsCharsWhite = 0, lsWords = 1, lsCmd = 0,
          lsEnvir = 0\<rparr>
   \<and> stri_stats_latex ascii_api [Some ''ab cd'', None, Some ''e''] =
     Inr \<lparr>lsCharsWord = 5, lsCharsCmdEnvir = 0, lsCharsWhite = 1, lsWords = 3, lsCmd = 0,
          lsEnvir = 0\<rparr>"
proof -
  note t = stats_single_accumulator_skips_NA [where U = ascii_api
      and str = "[Some ''ab cd'', None, Some ''e'']"]
  have g1: "stri_stats_general ascii_api [Some ''ab cd''] =
     Inr \<lparr>gsNumLines = 1, gsNumLinesNonEmpty = 1, gsNumChars = 5, gsNumCharsNonWhite = 4\<rparr>"
    by code_simp
  have g2: "stri_stats_general ascii_api [Some ''e''] =
     Inr \<lparr>gsNumLines = 1, gsNumLinesNonEmpty = 1, gsNumChars = 1, gsNumCharsNonWhite = 1\<rparr>"
    by code_simp
  have l1: "stri_stats_latex ascii_api [Some ''ab cd''] =
     Inr \<lparr>lsCharsWord = 4, lsCharsCmdEnvir = 0, lsCharsWhite = 1, lsWords = 2, lsCmd = 0,
          lsEnvir = 0\<rparr>"
    by code_simp
  have l2: "stri_stats_latex ascii_api [Some ''e''] =
     Inr \<lparr>lsCharsWord = 1, lsCharsCmdEnvir = 0, lsCharsWhite = 0, lsWords = 1, lsCmd = 0,
          lsEnvir = 0\<rparr>"
    by code_simp
  have g0: "stri_stats_general ascii_api [None] = Inr gstats_zero"
    by (rule t [THEN conjunct2, THEN conjunct2, THEN conjunct1])
  have l0: "stri_stats_latex ascii_api [None] = Inr lstats_zero"
    by (rule t [THEN conjunct2, THEN conjunct2, THEN conjunct2, THEN conjunct1])
  have g: "stri_stats_general ascii_api [Some ''ab cd'', None, Some ''e''] =
     Inr \<lparr>gsNumLines = 2, gsNumLinesNonEmpty = 2, gsNumChars = 6, gsNumCharsNonWhite = 5\<rparr>"
    by (subst t [THEN conjunct1])
       (simp add: g0 g1 g2 gstats_sum_def gstats_add_def gstats_zero_def)
  have l: "stri_stats_latex ascii_api [Some ''ab cd'', None, Some ''e''] =
     Inr \<lparr>lsCharsWord = 5, lsCharsCmdEnvir = 0, lsCharsWhite = 1, lsWords = 3, lsCmd = 0,
          lsEnvir = 0\<rparr>"
    by (subst t [THEN conjunct2, THEN conjunct1])
       (simp add: l0 l1 l2 lstats_sum_def lstats_add_def lstats_zero_def)
  from g1 g2 g l1 l2 l show ?thesis by simp
qed

subsection \<open>The states of the LaTeX scan\<close>

lemma latex_switch_state:
  "latex_switch U cs c j state word stats = Inr (j', state', r) \<Longrightarrow> state' \<noteq> stControlSymbol"
  by (auto simp: latex_switch_def Let_def split: State.splits if_splits)

lemma latex_iter_state:
  "latex_iter U cs j state word stats = Inr (j', state', r) \<Longrightarrow> state' \<noteq> stControlSymbol"
  by (auto simp: latex_iter_def split: prod.splits if_splits dest: latex_switch_state)

lemma latex_switch_error:
  "latex_switch U cs c j state word stats = Inl e \<Longrightarrow> state = stControlSymbol"
  by (auto simp: latex_switch_def Let_def split: State.splits if_splits)

lemma latex_iter_error:
  "state \<noteq> stControlSymbol \<Longrightarrow> latex_iter U cs j state word stats = Inl e \<Longrightarrow> e = MSG_NEWLINE_FOUND"
  by (auto simp: latex_iter_def split: prod.splits if_splits dest: latex_switch_error)

lemma latex_states_no_symbol:
  "state \<noteq> stControlSymbol \<Longrightarrow> stControlSymbol \<notin> set (latex_states U cs j state word stats)"
proof (induction U cs j state word stats rule: latex_states.induct)
  case (1 U cs j state word stats)
  show ?case
  proof (cases "j < length cs")
    case False
    with "1.prems" show ?thesis by (subst latex_states.simps) simp
  next
    case True
    show ?thesis
    proof (cases "latex_iter U cs j state word stats")
      case (Inl e)
      with True "1.prems" show ?thesis by (subst latex_states.simps) simp
    next
      case (Inr r)
      obtain j' state' word' stats' where r: "r = (j', state', word', stats')"
        by (cases r) auto
      from Inr r have "state' \<noteq> stControlSymbol" by (auto dest: latex_iter_state)
      with "1.IH" [OF True Inr [unfolded r] refl refl refl]
      have "stControlSymbol \<notin> set (latex_states U cs j' state' word' stats')" by simp
      with True Inr r "1.prems" show ?thesis by (subst latex_states.simps) simp
    qed
  qed
qed

lemma latex_chars_error:
  "state \<noteq> stControlSymbol \<Longrightarrow> latex_chars U cs j state word stats = Inl e \<Longrightarrow> e = MSG_NEWLINE_FOUND"
proof (induction U cs j state word stats rule: latex_chars.induct)
  case (1 U cs j state word stats)
  from "1.prems"(2) have lt: "j < length cs"
    by (subst (asm) latex_chars.simps) (simp split: if_splits)
  show ?case
  proof (cases "latex_iter U cs j state word stats")
    case (Inl e')
    with lt "1.prems"(2) have "e = e'" by (subst (asm) latex_chars.simps) simp
    with Inl "1.prems"(1) show ?thesis by (auto dest: latex_iter_error)
  next
    case (Inr r)
    obtain j' state' word' stats' where r: "r = (j', state', word', stats')"
      by (cases r) auto
    from Inr r have st: "state' \<noteq> stControlSymbol" by (auto dest: latex_iter_state)
    from lt Inr r "1.prems"(2) have "latex_chars U cs j' state' word' stats' = Inl e"
      by (subst (asm) latex_chars.simps) simp
    with "1.IH" [OF lt Inr [unfolded r] refl refl refl st] show ?thesis by simp
  qed
qed

lemma latex_elems_error: "latex_elems U str stats = Inl e \<Longrightarrow> e = MSG_NEWLINE_FOUND"
proof (induction str arbitrary: stats)
  case Nil
  then show ?case by simp
next
  case (Cons x str)
  then show ?case
    by (cases x) (auto split: sum.splits dest: latex_chars_error [rotated])
qed

text \<open>
  Claim C9, as stated, fails: no assignment in the code gives \<open>state\<close> the value
  \<open>stControlSymbol\<close>, so no text makes the scan enter it.
\<close>

theorem ControlSymbol_reachable_counterexample:
  "\<not> (\<exists>U cs stats. stControlSymbol \<in> set (latex_states U cs 0 stStandard False stats))"
  using latex_states_no_symbol [of stStandard] by simp

text \<open>
  Claim C9, amended. \<open>stControlSymbol\<close> is declared and never entered: every state
  the scan of an element passes through is one of \<open>stStandard\<close>, \<open>stComment\<close>,
  \<open>stControlSequence\<close>, \<open>stCommand\<close> and \<open>stEnvironment\<close>, and the \<open>default:\<close>
  branch of the switch, the only place that would handle it, never runs.
\<close>

theorem ControlSymbol_never_entered:
  "set (latex_states U cs 0 stStandard False stats) \<subseteq>
     {stStandard, stComment, stControlSequence, stCommand, stEnvironment}
   \<and> stri_stats_latex U str \<noteq> Inl DEBUG_stats_latex"
proof
  have "stControlSymbol \<notin> set (latex_states U cs 0 stStandard False stats)"
    by (rule latex_states_no_symbol) simp
  then show "set (latex_states U cs 0 stStandard False stats) \<subseteq>
     {stStandard, stComment, stControlSequence, stCommand, stEnvironment}"
  proof -
    assume no: "stControlSymbol \<notin> set (latex_states U cs 0 stStandard False stats)"
    show ?thesis
    proof
      fix x assume "x \<in> set (latex_states U cs 0 stStandard False stats)"
      with no have "x \<noteq> stControlSymbol" by auto
      then show "x \<in> {stStandard, stComment, stControlSequence, stCommand, stEnvironment}"
        by (cases x) simp_all
    qed
  qed
  show "stri_stats_latex U str \<noteq> Inl DEBUG_stats_latex"
    unfolding stri_stats_latex_def by (auto dest: latex_elems_error)
qed

subsection \<open>The line feed\<close>

lemma U8_NEXT_at_newline: "cs ! p = CHR 0x0A \<Longrightarrow> U8_NEXT U cs p len = (0x0A, p + 1)"
  by (simp add: U8_NEXT_def)

lemma U8_NEXT_keeps_newline:
  assumes "u8_trail_bytes U" "j < p" "cs ! p = CHR 0x0A" "U8_NEXT U cs j len = (c, j')"
  shows "j' \<le> p"
proof (rule ccontr)
  assume "\<not> j' \<le> p"
  then have gt: "p < j'" by simp
  show False
  proof (cases "(of_char (cs ! j) :: int) < 0x80")
    case True
    with assms(4) have "j' = j + 1" by (simp add: U8_NEXT_def)
    with gt assms(2) show False by simp
  next
    case False
    with assms(4) have j': "j' = j + 1 + snd (u8_multi U cs (j + 1) len (of_char (cs ! j)))"
      by (auto simp: U8_NEXT_def Let_def split: prod.splits)
    define m where "m = p - (j + 1)"
    from gt j' assms(2) have "m < snd (u8_multi U cs (j + 1) len (of_char (cs ! j)))"
      and "p = j + 1 + m"
      by (simp_all add: m_def)
    with assms(1) have "(0x80 :: int) \<le> of_char (cs ! p)"
      unfolding u8_trail_bytes_def by blast
    with assms(3) show False by simp
  qed
qed

lemma general_char_error: "general_char U c acc = Inl e \<Longrightarrow> e = MSG_NEWLINE_FOUND"
  by (cases acc) (auto simp: general_char_def Let_def split: if_splits)

lemma general_chars_newline:
  "u8_trail_bytes U \<Longrightarrow> j \<le> p \<Longrightarrow> p < length cs \<Longrightarrow> cs ! p = CHR 0x0A \<Longrightarrow>
   general_chars U cs j acc = Inl MSG_NEWLINE_FOUND"
proof (induction U cs j acc rule: general_chars.induct)
  case (1 U cs j acc)
  from "1.prems" have lt: "j < length cs" by simp
  obtain c j' where nx: "U8_NEXT U cs j (length cs) = (c, j')"
    by (cases "U8_NEXT U cs j (length cs)") auto
  show ?case
  proof (cases "general_char U c acc")
    case (Inl e)
    then have "e = MSG_NEWLINE_FOUND" by (rule general_char_error)
    with Inl lt nx show ?thesis by (subst general_chars.simps) simp
  next
    case (Inr acc')
    have "j \<noteq> p"
    proof
      assume "j = p"
      with "1.prems"(4) nx have "c = 0x0A" by (simp add: U8_NEXT_at_newline)
      with Inr show False by (cases acc) (simp add: general_char_def)
    qed
    with "1.prems"(2) have "j < p" by simp
    with "1.prems" nx have "j' \<le> p" by (auto dest: U8_NEXT_keeps_newline)
    with "1.IH" [OF lt nx [symmetric] Inr "1.prems"(1) _ "1.prems"(3,4)]
    have "general_chars U cs j' acc' = Inl MSG_NEWLINE_FOUND" by simp
    with Inr lt nx show ?thesis by (subst general_chars.simps) simp
  qed
qed

lemma general_chars_error: "general_chars U cs j acc = Inl e \<Longrightarrow> e = MSG_NEWLINE_FOUND"
proof (induction U cs j acc rule: general_chars.induct)
  case (1 U cs j acc)
  from "1.prems" have lt: "j < length cs"
    by (subst (asm) general_chars.simps) (simp split: if_splits)
  obtain c j' where nx: "U8_NEXT U cs j (length cs) = (c, j')"
    by (cases "U8_NEXT U cs j (length cs)") auto
  show ?case
  proof (cases "general_char U c acc")
    case (Inl e')
    with lt nx "1.prems" have "e = e'" by (subst (asm) general_chars.simps) simp
    with Inl show ?thesis by (auto dest: general_char_error)
  next
    case (Inr acc')
    with lt nx "1.prems" have "general_chars U cs j' acc' = Inl e"
      by (subst (asm) general_chars.simps) simp
    with "1.IH" [OF lt nx [symmetric] Inr] show ?thesis by simp
  qed
qed

lemma general_elems_newline:
  "u8_trail_bytes U \<Longrightarrow> Some cs \<in> set str \<Longrightarrow> CHR 0x0A \<in> set cs \<Longrightarrow>
   general_elems U str stats = Inl MSG_NEWLINE_FOUND"
proof (induction str arbitrary: stats)
  case Nil
  then show ?case by simp
next
  case (Cons x str)
  show ?case
  proof (cases x)
    case None
    with Cons show ?thesis by simp
  next
    case (Some cs')
    show ?thesis
    proof (cases "general_chars U cs' 0 (stats\<lparr>gsNumLines := gsNumLines stats + 1\<rparr>, False)")
      case (Inl e)
      then have "e = MSG_NEWLINE_FOUND" by (rule general_chars_error)
      with Inl Some show ?thesis by simp
    next
      case (Inr acc)
      have "cs' \<noteq> cs"
      proof
        assume eq: "cs' = cs"
        from Cons.prems(3) obtain p where "p < length cs" "cs ! p = CHR 0x0A"
          by (auto simp: in_set_conv_nth)
        with Cons.prems(1) have "general_chars U cs 0 (stats\<lparr>gsNumLines := gsNumLines stats + 1\<rparr>, False)
            = Inl MSG_NEWLINE_FOUND"
          by (intro general_chars_newline [where p = p]) simp_all
        with Inr eq show False by simp
      qed
      with Cons.prems Some have "Some cs \<in> set str" by simp
      with Cons.IH Cons.prems show ?thesis using Inr Some
        by (cases acc) simp
    qed
  qed
qed


lemma strncmp_eq_skip:
  assumes "strncmp_eq cs j lit" "j \<le> p" "p < length cs" "cs ! p \<notin> set lit"
  shows "j + length lit \<le> p"
proof (rule ccontr)
  assume "\<not> j + length lit \<le> p"
  with assms(2) have lt: "p - j < length lit" by simp
  from assms(1) have "lit ! (p - j) = take (length lit) (drop j cs) ! (p - j)"
    by (simp add: strncmp_eq_def)
  also from lt assms(2,3) have "\<dots> = cs ! p" by simp
  finally have "cs ! p \<in> set lit" using lt by (metis nth_mem)
  with assms(4) show False by simp
qed

lemma latex_switch_index:
  "latex_switch U cs c j state word stats = Inr (j', r) \<Longrightarrow>
   j' = j \<or> (j' = j + 4 \<and> strncmp_eq cs j ''egin'') \<or> (j' = j + 2 \<and> strncmp_eq cs j ''nd'')"
  by (auto simp: latex_switch_def Let_def split: State.splits if_splits)

lemma latex_switch_keeps_newline:
  assumes "latex_switch U cs c j state word stats = Inr (j', r)"
    "j \<le> p" "p < length cs" "cs ! p = CHR 0x0A"
  shows "j' \<le> p"
  using latex_switch_index [OF assms(1)] assms(2-)
    strncmp_eq_skip [of cs j "''egin''" p] strncmp_eq_skip [of cs j "''nd''" p]
  by auto

lemma latex_iter_keeps_newline:
  assumes "u8_trail_bytes U" "j \<le> p" "p < length cs" "cs ! p = CHR 0x0A"
    "latex_iter U cs j state word stats = Inr (j', r)"
  shows "j' \<le> p"
proof -
  obtain c j1 where nx: "U8_NEXT U cs j (length cs) = (c, j1)"
    by (cases "U8_NEXT U cs j (length cs)") auto
  with assms(5) have c: "c \<noteq> 0x0A" and sw: "latex_switch U cs c j1 state word stats = Inr (j', r)"
    by (auto simp: latex_iter_def split: if_splits)
  have "j \<noteq> p"
  proof
    assume "j = p"
    with assms(4) nx c show False by (simp add: U8_NEXT_at_newline)
  qed
  with assms(2) have "j < p" by simp
  with assms(1,4) nx have "j1 \<le> p" by (auto dest: U8_NEXT_keeps_newline)
  with sw assms(3,4) show ?thesis by (auto intro: latex_switch_keeps_newline)
qed

lemma latex_chars_newline:
  "u8_trail_bytes U \<Longrightarrow> j \<le> p \<Longrightarrow> p < length cs \<Longrightarrow> cs ! p = CHR 0x0A \<Longrightarrow>
   state \<noteq> stControlSymbol \<Longrightarrow>
   latex_chars U cs j state word stats = Inl MSG_NEWLINE_FOUND"
proof (induction U cs j state word stats rule: latex_chars.induct)
  case (1 U cs j state word stats)
  from "1.prems" have lt: "j < length cs" by simp
  show ?case
  proof (cases "latex_iter U cs j state word stats")
    case (Inl e)
    with "1.prems"(5) have "e = MSG_NEWLINE_FOUND" by (auto dest: latex_iter_error)
    with Inl lt show ?thesis by (subst latex_chars.simps) simp
  next
    case (Inr r)
    obtain j' state' word' stats' where r: "r = (j', state', word', stats')"
      by (cases r) auto
    from Inr r have st: "state' \<noteq> stControlSymbol" by (auto dest: latex_iter_state)
    from "1.prems"(1-4) Inr r have "j' \<le> p" by (auto dest: latex_iter_keeps_newline)
    with "1.IH" [OF lt Inr [unfolded r] refl refl refl "1.prems"(1) _ "1.prems"(3,4) st]
    have "latex_chars U cs j' state' word' stats' = Inl MSG_NEWLINE_FOUND" by simp
    with Inr r lt show ?thesis by (subst latex_chars.simps) simp
  qed
qed

lemma latex_elems_newline:
  "u8_trail_bytes U \<Longrightarrow> Some cs \<in> set str \<Longrightarrow> CHR 0x0A \<in> set cs \<Longrightarrow>
   latex_elems U str stats = Inl MSG_NEWLINE_FOUND"
proof (induction str arbitrary: stats)
  case Nil
  then show ?case by simp
next
  case (Cons x str)
  show ?case
  proof (cases x)
    case None
    with Cons show ?thesis by simp
  next
    case (Some cs')
    show ?thesis
    proof (cases "latex_chars U cs' 0 stStandard False stats")
      case (Inl e)
      then have "e = MSG_NEWLINE_FOUND" by (auto dest: latex_chars_error [rotated])
      with Inl Some show ?thesis by simp
    next
      case (Inr stats')
      have "cs' \<noteq> cs"
      proof
        assume eq: "cs' = cs"
        from Cons.prems(3) obtain p where "p < length cs" "cs ! p = CHR 0x0A"
          by (auto simp: in_set_conv_nth)
        with Cons.prems(1) have "latex_chars U cs 0 stStandard False stats = Inl MSG_NEWLINE_FOUND"
          by (intro latex_chars_newline [where p = p]) simp_all
        with Inr eq show False by simp
      qed
      with Cons.prems Some have "Some cs \<in> set str" by simp
      with Cons.IH Cons.prems show ?thesis using Inr Some by simp
    qed
  qed
qed

subsection \<open>Environments and words\<close>

lemma latex_chars_step:
  "j < length cs \<Longrightarrow>
   latex_chars U cs j state word stats =
     (case latex_iter U cs j state word stats of
        Inl e \<Rightarrow> Inl e
      | Inr (j', state', word', stats') \<Rightarrow> latex_chars U cs j' state' word' stats')"
  by (subst latex_chars.simps) simp

lemma latex_chars_stop: "\<not> j < length cs \<Longrightarrow> latex_chars U cs j state word stats = Inr stats"
  by (subst latex_chars.simps) simp

lemmas latex_run =
  stri_stats_latex_def lstats_zero_def latex_chars_step latex_chars_stop latex_iter_def
  U8_NEXT_def latex_switch_def strncmp_eq_def Let_def

text \<open>
  Claim C2, as stated, fails: the code asks for the letter \<open>b\<close> before \<open>egin\<close>.
  The letter \<open>x\<close> followed by \<open>egin\<close> is a command: in \<open>\xegin{a}\<close> the switch,
  at \<open>x\<close> in the state \<open>stControlSequence\<close> with \<open>egin\<close> next, counts a command,
  skips nothing and enters \<open>stCommand\<close>, and the call counts no environment.
\<close>

theorem begin_any_letter_counterexample:
  "u_isUAlphabetic ascii_api 0x78
   \<and> strncmp_eq (CHR 0x5C # ''xegin{a}'') 2 ''egin''
   \<and> latex_switch ascii_api (CHR 0x5C # ''xegin{a}'') 0x78 2 stControlSequence False
         (lstats_zero\<lparr>lsCharsCmdEnvir := 1\<rparr>) =
       Inr (2, stCommand, False, lstats_zero\<lparr>lsCharsCmdEnvir := 2, lsCmd := 1\<rparr>)
   \<and> stri_stats_latex ascii_api [Some (CHR 0x5C # ''xegin{a}'')] =
       Inr \<lparr>lsCharsWord = 1, lsCharsCmdEnvir = 6, lsCharsWhite = 2, lsWords = 1,
            lsCmd = 1, lsEnvir = 0\<rparr>"
  by (simp add: latex_run ascii_api_def)

text \<open>
  Claim C2, amended. In the state \<open>stControlSequence\<close>, the letter \<open>b\<close> whose next
  four bytes spell \<open>egin\<close> adds one to \<open>Envirs\<close> and five to \<open>CharsCmdEnvir\<close>, skips
  the four bytes and enters \<open>stEnvironment\<close>; the letter \<open>e\<close> whose next two bytes
  spell \<open>nd\<close> adds three to \<open>CharsCmdEnvir\<close>, skips the two bytes and enters
  \<open>stEnvironment\<close>, and leaves \<open>Envirs\<close> as it is. The text
  \<open>\begin{equation}x\end{equation}\<close> counts one environment. ICU is asked only to
  class \<open>b\<close> and \<open>e\<close> as alphabetic.
\<close>

theorem begin_end_environment:
  assumes "u_isUAlphabetic U 0x62" and "u_isUAlphabetic U 0x65"
  shows "(strncmp_eq cs j ''egin'' \<longrightarrow>
            latex_switch U cs 0x62 j stControlSequence word stats =
              Inr (j + 4, stEnvironment, word,
                stats\<lparr>lsEnvir := lsEnvir stats + 1,
                      lsCharsCmdEnvir := lsCharsCmdEnvir stats + 5\<rparr>))
       \<and> (strncmp_eq cs j ''nd'' \<longrightarrow>
            latex_switch U cs 0x65 j stControlSequence word stats =
              Inr (j + 2, stEnvironment, word,
                stats\<lparr>lsCharsCmdEnvir := lsCharsCmdEnvir stats + 3\<rparr>))
       \<and> map_sum id lsEnvir
            (stri_stats_latex U
               [Some (CHR 0x5C # ''begin{equation}x'' @ CHR 0x5C # ''end{equation}'')]) = Inr 1"
proof (intro conjI impI)
  assume "strncmp_eq cs j ''egin''"
  with assms(1)
  show "latex_switch U cs 0x62 j stControlSequence word stats =
          Inr (j + 4, stEnvironment, word,
            stats\<lparr>lsEnvir := lsEnvir stats + 1, lsCharsCmdEnvir := lsCharsCmdEnvir stats + 5\<rparr>)"
    by (simp add: latex_switch_def)
next
  assume "strncmp_eq cs j ''nd''"
  with assms(2)
  show "latex_switch U cs 0x65 j stControlSequence word stats =
          Inr (j + 2, stEnvironment, word,
            stats\<lparr>lsCharsCmdEnvir := lsCharsCmdEnvir stats + 3\<rparr>)"
    by (simp add: latex_switch_def)
next
  from assms
  show "map_sum id lsEnvir
          (stri_stats_latex U
             [Some (CHR 0x5C # ''begin{equation}x'' @ CHR 0x5C # ''end{equation}'')]) = Inr 1"
    by (simp add: latex_run)
qed

theorem begin_end_environment_witness:
  "latex_switch ascii_api (CHR 0x5C # ''begin{a}'') 0x62 2 stControlSequence False
       (lstats_zero\<lparr>lsCharsCmdEnvir := 1\<rparr>) =
     Inr (6, stEnvironment, False, lstats_zero\<lparr>lsCharsCmdEnvir := 6, lsEnvir := 1\<rparr>)
   \<and> latex_switch ascii_api (CHR 0x5C # ''end{a}'') 0x65 2 stControlSequence False
       (lstats_zero\<lparr>lsCharsCmdEnvir := 1\<rparr>) =
     Inr (4, stEnvironment, False, lstats_zero\<lparr>lsCharsCmdEnvir := 4\<rparr>)
   \<and> map_sum id lsEnvir
        (stri_stats_latex ascii_api
           [Some (CHR 0x5C # ''begin{equation}x'' @ CHR 0x5C # ''end{equation}'')]) = Inr 1"
  using begin_end_environment [of ascii_api "CHR 0x5C # ''begin{a}''" 2 False
      "lstats_zero\<lparr>lsCharsCmdEnvir := 1\<rparr>"]
    begin_end_environment [of ascii_api "CHR 0x5C # ''end{a}''" 2 False
      "lstats_zero\<lparr>lsCharsCmdEnvir := 1\<rparr>"]
  by (simp add: ascii_api_def strncmp_eq_def lstats_zero_def)

text \<open>
  Claim C7. A backslash read in the state \<open>stStandard\<close> leaves \<open>word\<close> false exactly
  when it was false already or a code point follows that is not punctuation or is
  \<open>~\<close> or \<open>^\<close>; it adds one to \<open>CharsCmdEnvir\<close> and enters \<open>stControlSequence\<close>.
  Hence \<open>K\"ahler\<close> is one word, for any ICU tables that class its letters as
  alphabetic and the double quote as punctuation.
\<close>

theorem backslash_closes_word:
  "latex_switch U cs 0x5C j stStandard word stats =
     Inr (j, stControlSequence,
       (if j < length cs \<and>
           (\<not> u_ispunct U (fst (U8_NEXT U cs j (length cs)))
            \<or> fst (U8_NEXT U cs j (length cs)) = 0x7E
            \<or> fst (U8_NEXT U cs j (length cs)) = 0x5E)
        then False else word),
       stats\<lparr>lsCharsCmdEnvir := lsCharsCmdEnvir stats + 1\<rparr>)
   \<and> (u_isUAlphabetic U 0x4B \<and> u_isUAlphabetic U 0x61 \<and> u_isUAlphabetic U 0x68
        \<and> u_isUAlphabetic U 0x6C \<and> u_isUAlphabetic U 0x65 \<and> u_isUAlphabetic U 0x72
        \<and> u_ispunct U 0x22 \<longrightarrow>
      map_sum id lsWords
        (stri_stats_latex U [Some (''K'' @ [CHR 0x5C, CHR 0x22] @ ''ahler'')]) = Inr 1)"
proof (intro conjI impI)
  show "latex_switch U cs 0x5C j stStandard word stats =
     Inr (j, stControlSequence,
       (if j < length cs \<and>
           (\<not> u_ispunct U (fst (U8_NEXT U cs j (length cs)))
            \<or> fst (U8_NEXT U cs j (length cs)) = 0x7E
            \<or> fst (U8_NEXT U cs j (length cs)) = 0x5E)
        then False else word),
       stats\<lparr>lsCharsCmdEnvir := lsCharsCmdEnvir stats + 1\<rparr>)"
    by (simp add: latex_switch_def Let_def)
next
  assume "u_isUAlphabetic U 0x4B \<and> u_isUAlphabetic U 0x61 \<and> u_isUAlphabetic U 0x68
        \<and> u_isUAlphabetic U 0x6C \<and> u_isUAlphabetic U 0x65 \<and> u_isUAlphabetic U 0x72
        \<and> u_ispunct U 0x22"
  then show "map_sum id lsWords
        (stri_stats_latex U [Some (''K'' @ [CHR 0x5C, CHR 0x22] @ ''ahler'')]) = Inr 1"
    by (simp add: latex_run)
qed

theorem backslash_closes_word_witness:
  "latex_switch ascii_api (''K'' @ [CHR 0x5C, CHR 0x22] @ ''ahler'') 0x5C 2 stStandard True
       (lstats_zero\<lparr>lsWords := 1, lsCharsWord := 1\<rparr>) =
     Inr (2, stControlSequence, True,
       lstats_zero\<lparr>lsWords := 1, lsCharsWord := 1, lsCharsCmdEnvir := 1\<rparr>)
   \<and> latex_switch ascii_api (''K'' @ CHR 0x5C # ''ahler'') 0x5C 2 stStandard True
       (lstats_zero\<lparr>lsWords := 1, lsCharsWord := 1\<rparr>) =
     Inr (2, stControlSequence, False,
       lstats_zero\<lparr>lsWords := 1, lsCharsWord := 1, lsCharsCmdEnvir := 1\<rparr>)
   \<and> map_sum id lsWords
        (stri_stats_latex ascii_api [Some (''K'' @ [CHR 0x5C, CHR 0x22] @ ''ahler'')]) = Inr 1"
  using backslash_closes_word [of ascii_api "''K'' @ [CHR 0x5C, CHR 0x22] @ ''ahler''" 2 True
      "lstats_zero\<lparr>lsWords := 1, lsCharsWord := 1\<rparr>"]
    backslash_closes_word [of ascii_api "''K'' @ CHR 0x5C # ''ahler''" 2 True
      "lstats_zero\<lparr>lsWords := 1, lsCharsWord := 1\<rparr>"]
  by (simp add: ascii_api_def U8_NEXT_def lstats_zero_def)

section \<open>Properties of the boundary location\<close>

subsection \<open>The loops over the boundaries\<close>

lemma boundaries_matches_fst:
  "fst (boundaries_matches briter last_match occurences) =
     occurences @
     map fst (candidates last_match (takeWhile (\<lambda>(m, st). m \<noteq> DONE) (bi_pending briter)))"
proof (induction briter last_match occurences rule: boundaries_matches.induct)
  case (1 briter last_match occurences)
  show ?case
  proof (cases "bi_pending briter")
    case Nil
    then show ?thesis
      by (subst boundaries_matches.simps) (simp add: briter_next_def)
  next
    case (Cons a rest)
    obtain match status where a: "a = (match, status)" by (cases a) auto
    show ?thesis
    proof (cases "match = DONE")
      case True
      with Cons a show ?thesis
        by (subst boundaries_matches.simps) (simp add: briter_next_def)
    next
      case False
      have nx: "briter_next briter = (match, briter\<lparr>bi_pending := rest, bi_ruleStatus := status\<rparr>)"
        using Cons a by (simp add: briter_next_def)
      from "1.IH" [OF nx [symmetric] False]
      show ?thesis using Cons a False nx
        by (subst boundaries_matches.simps) simp
    qed
  qed
qed

lemma words_matches_fst:
  "fst (words_matches briter last_match occurences) =
     occurences @
     map fst (filter (\<lambda>(iv, st). st \<noteq> UBRK_WORD_NONE)
       (candidates last_match (takeWhile (\<lambda>(m, st). m \<noteq> DONE) (bi_pending briter))))"
proof (induction briter last_match occurences rule: words_matches.induct)
  case (1 briter last_match occurences)
  show ?case
  proof (cases "bi_pending briter")
    case Nil
    then show ?thesis
      by (subst words_matches.simps) (simp add: briter_next_def)
  next
    case (Cons a rest)
    obtain match status where a: "a = (match, status)" by (cases a) auto
    show ?thesis
    proof (cases "match = DONE")
      case True
      with Cons a show ?thesis
        by (subst words_matches.simps) (simp add: briter_next_def)
    next
      case False
      have nx: "briter_next briter = (match, briter\<lparr>bi_pending := rest, bi_ruleStatus := status\<rparr>)"
        using Cons a by (simp add: briter_next_def)
      from "1.IH" [OF nx [symmetric] False refl]
      show ?thesis using Cons a False nx
        by (subst words_matches.simps) (simp add: briter_getRuleStatus_def Let_def)
    qed
  qed
qed

lemma boundaries_matches_kind:
  "bi_kind (snd (boundaries_matches briter last_match occurences)) = bi_kind briter
   \<and> bi_loc (snd (boundaries_matches briter last_match occurences)) = bi_loc briter"
proof (induction briter last_match occurences rule: boundaries_matches.induct)
  case (1 briter last_match occurences)
  obtain match briter' where nx: "briter_next briter = (match, briter')"
    by (cases "briter_next briter") auto
  then have k: "bi_kind briter' = bi_kind briter \<and> bi_loc briter' = bi_loc briter"
    by (auto simp: briter_next_def split: list.splits)
  show ?case
  proof (cases "match = DONE")
    case True
    with nx k show ?thesis by (subst (1 2) boundaries_matches.simps) simp
  next
    case False
    from "1.IH" [OF nx [symmetric] False] k nx False
    show ?thesis by (subst (1 2) boundaries_matches.simps) simp
  qed
qed

lemma words_matches_kind:
  "bi_kind (snd (words_matches briter last_match occurences)) = bi_kind briter
   \<and> bi_loc (snd (words_matches briter last_match occurences)) = bi_loc briter"
proof (induction briter last_match occurences rule: words_matches.induct)
  case (1 briter last_match occurences)
  obtain match briter' where nx: "briter_next briter = (match, briter')"
    by (cases "briter_next briter") auto
  then have k: "bi_kind briter' = bi_kind briter \<and> bi_loc briter' = bi_loc briter"
    by (auto simp: briter_next_def split: list.splits)
  show ?case
  proof (cases "match = DONE")
    case True
    with nx k show ?thesis by (subst (1 2) words_matches.simps) simp
  next
    case False
    from "1.IH" [OF nx [symmetric] False refl] k nx False
    show ?thesis by (subst (1 2) words_matches.simps) (simp add: Let_def)
  qed
qed

subsection \<open>One element, with and without the iterator of the element before\<close>

lemma stri_match_arg_bounds:
  "- 1 \<le> stri_match_arg opt opts \<and> stri_match_arg opt opts < int (length opts)"
  by (induction opts) (auto simp: Let_def)


lemma boundary_cur_le_3: "stri_match_arg b boundary_opts \<le> 3"
  using stri_match_arg_bounds [of b boundary_opts] by (simp add: boundary_opts_def)

lemma boundaries_text_result:
  assumes "bi_kind h = kind" "bi_loc h = loc"
  shows "\<exists>h'. (case briter_first I (briter_setText I h s) of
           (last_match, briter) \<Rightarrow> boundaries_matches briter last_match []) =
         (map fst (engine_intervals I loc kind s), h') \<and> bi_kind h' = kind \<and> bi_loc h' = loc"
proof -
  define h1 where "h1 = snd (briter_first I (briter_setText I h s))"
  have f: "briter_first I (briter_setText I h s) = (brk_first I loc kind s, h1)"
    using assms by (simp add: h1_def briter_first_def briter_setText_def)
  have p: "bi_pending h1 = brk_next I loc kind s" and k: "bi_kind h1 = kind" "bi_loc h1 = loc"
    using assms by (simp_all add: h1_def briter_first_def briter_setText_def)
  have "fst (boundaries_matches h1 (brk_first I loc kind s) []) =
      map fst (engine_intervals I loc kind s)"
    by (simp add: boundaries_matches_fst p engine_intervals_def)
  moreover have "bi_kind (snd (boundaries_matches h1 (brk_first I loc kind s) [])) = kind"
    "bi_loc (snd (boundaries_matches h1 (brk_first I loc kind s) [])) = loc"
    using boundaries_matches_kind [of h1 "brk_first I loc kind s" "[]"] k by simp_all
  ultimately show ?thesis using f
    by (cases "boundaries_matches h1 (brk_first I loc kind s) []") auto
qed

lemma open_briter_result:
  assumes "briter_inv I loc st" "0 \<le> k" "k \<le> 3"
  shows "(U_FAILURE (createInstance_status I loc (nat k)) \<and>
          open_briter I loc st k = Inl (StriException_status (createInstance_status I loc (nat k))))
       \<or> (\<not> U_FAILURE (createInstance_status I loc (nat k)) \<and>
          (\<exists>h. open_briter I loc st k = Inr (Some h, k) \<and> bi_kind h = nat k \<and> bi_loc h = loc))"
proof -
  obtain briter lb where st: "st = (briter, lb)" by (cases st) auto
  show ?thesis
  proof (cases "lb = k")
    case False
    with st assms(2,3) show ?thesis
      by (simp add: open_briter_def Let_def createInstance_def)
  next
    case True
    with st assms show ?thesis
      by (cases briter) (auto simp: open_briter_def briter_inv_def)
  qed
qed

lemma boundaries_elem_text:
  assumes inv: "briter_inv I loc st" and s: "s \<noteq> []"
  shows "map_sum id fst (boundaries_elem I M loc st (Some s) (Some b)) =
           boundaries_result I M loc (Some s) (Some b)
         \<and> (\<forall>ans st'. boundaries_elem I M loc st (Some s) (Some b) = Inr (ans, st') \<longrightarrow>
              briter_inv I loc st')"
proof -
  define k where "k = stri_match_arg b boundary_opts"
  show ?thesis
  proof (cases "k < 0")
    case True
    with s show ?thesis
      by (simp add: boundaries_elem_def boundaries_result_def k_def)
  next
    case False
    then have k0: "0 \<le> k" by simp
    have k3: "k \<le> 3" unfolding k_def by (rule boundary_cur_le_3)
    from open_briter_result [OF inv k0 k3] show ?thesis
    proof (elim disjE conjE exE)
      assume "U_FAILURE (createInstance_status I loc (nat k))"
        "open_briter I loc st k = Inl (StriException_status (createInstance_status I loc (nat k)))"
      with s False show ?thesis
        by (simp add: boundaries_elem_def boundaries_result_def k_def [symmetric])
    next
      fix h
      assume ok: "\<not> U_FAILURE (createInstance_status I loc (nat k))"
        and op: "open_briter I loc st k = Inr (Some h, k)"
        and kind: "bi_kind h = nat k" and loc: "bi_loc h = loc"
      from boundaries_text_result [OF kind loc, of I s]
      obtain h' where t: "(case briter_first I (briter_setText I h s) of
           (last_match, briter) \<Rightarrow> boundaries_matches briter last_match []) =
         (map fst (engine_intervals I loc (nat k) s), h')"
        and h': "bi_kind h' = nat k" "bi_loc h' = loc" by blast
      have inv': "briter_inv I loc (Some h', k)"
        using h' ok k0 by (simp add: briter_inv_def)
      have body: "(case briter_first I (briter_setText I h s) of
             (last_match, briter) \<Rightarrow>
               (case boundaries_matches briter last_match [] of
                  (occurences, briter) \<Rightarrow>
                    Inr (Matrix (M s occurences 1 0), Some briter, k))) =
           (Inr (Matrix (M s (map fst (engine_intervals I loc (nat k) s)) 1 0), Some h', k)
             :: error + locate_result \<times> BreakIterator option \<times> int)"
        using t by (simp split: prod.splits)
      show ?thesis
        using s False ok op kind loc inv'
        by (simp add: boundaries_elem_def boundaries_result_def k_def [symmetric] body)
    qed
  qed
qed

lemma boundaries_elem_NA:
  "str_i = None \<or> boundary_i = None \<or> str_i = Some [] \<Longrightarrow>
   boundaries_elem I M loc st str_i boundary_i = Inr (NA_matrix, st)"
  by (cases str_i; cases boundary_i) (auto simp: boundaries_elem_def)

lemma boundaries_result_NA:
  "str_i = None \<or> boundary_i = None \<or> str_i = Some [] \<Longrightarrow>
   boundaries_result I M loc str_i boundary_i = Inr NA_matrix"
  by (cases str_i; cases boundary_i) (auto simp: boundaries_result_def)

lemma boundaries_elem_result:
  assumes "briter_inv I loc st"
  shows "map_sum id fst (boundaries_elem I M loc st str_i boundary_i) =
           boundaries_result I M loc str_i boundary_i"
proof (cases "str_i = None \<or> boundary_i = None \<or> str_i = Some []")
  case True
  then show ?thesis by (simp add: boundaries_elem_NA boundaries_result_NA)
next
  case False
  then obtain s b where "str_i = Some s" "boundary_i = Some b" "s \<noteq> []" by auto
  with boundaries_elem_text [OF assms, of s M b] show ?thesis by simp
qed

lemma boundaries_elem_inv:
  assumes "briter_inv I loc st" "boundaries_elem I M loc st str_i boundary_i = Inr (ans, st')"
  shows "briter_inv I loc st'"
proof (cases "str_i = None \<or> boundary_i = None \<or> str_i = Some []")
  case True
  with assms show ?thesis by (simp add: boundaries_elem_NA)
next
  case False
  then obtain s b where "str_i = Some s" "boundary_i = Some b" "s \<noteq> []" by auto
  with boundaries_elem_text [OF assms(1), of s M b] assms(2) show ?thesis by blast
qed

lemma boundaries_elems_collect:
  "briter_inv I loc st \<Longrightarrow>
   boundaries_elems I M loc str boundary idx st =
     collect_results
       (map (\<lambda>i. boundaries_result I M loc (cont_get str i) (cont_get boundary i)) idx)"
proof (induction idx arbitrary: st)
  case Nil
  show ?case by simp
next
  case (Cons i idx)
  let ?e = "boundaries_elem I M loc st (cont_get str i) (cont_get boundary i)"
  have r: "map_sum id fst ?e = boundaries_result I M loc (cont_get str i) (cont_get boundary i)"
    using Cons.prems by (rule boundaries_elem_result)
  show ?case
  proof (cases ?e)
    case (Inl e)
    with r show ?thesis by (simp flip: r)
  next
    case (Inr p)
    obtain ans st' where p: "p = (ans, st')" by (cases p) auto
    with Inr Cons.prems have "briter_inv I loc st'" by (auto dest: boundaries_elem_inv)
    from Cons.IH [OF this] Inr p r show ?thesis by (simp flip: r)
  qed
qed

lemma briter_inv_init: "briter_inv I loc (None, - 1)"
  by (simp add: briter_inv_def)

lemma stri_locate_boundaries_collect:
  "stri_locate_boundaries I M str boundary qloc =
     collect_results
       (map (\<lambda>i. boundaries_result I M qloc (cont_get str i) (cont_get boundary i))
          [0..<stri_recycling_rule (length str) (length boundary)])"
  by (simp add: stri_locate_boundaries_def boundaries_elems_collect [OF briter_inv_init])

lemma collect_results_map_Inr: "collect_results (map Inr rs) = Inr rs"
  by (induction rs) auto

lemma collect_results_Inr_map: "collect_results xs = Inr rs \<Longrightarrow> xs = map Inr rs"
proof (induction xs arbitrary: rs)
  case Nil
  then show ?case by simp
next
  case (Cons x xs)
  show ?case
  proof (cases x)
    case (Inl e)
    with Cons.prems show ?thesis by simp
  next
    case (Inr a)
    with Cons.prems obtain as where "collect_results xs = Inr as" "rs = a # as"
      by (auto split: sum.splits)
    with Cons.IH Inr show ?thesis by simp
  qed
qed

lemma collect_results_Inr: "collect_results xs = Inr rs \<longleftrightarrow> xs = map Inr rs"
  using collect_results_map_Inr collect_results_Inr_map by metis

lemma collect_results_Inl:
  "collect_results xs = Inl e \<Longrightarrow> Inl e \<in> set xs"
proof (induction xs)
  case Nil
  then show ?case by simp
next
  case (Cons x xs)
  then show ?case by (cases x) (auto split: sum.splits)
qed


lemma stri_locate_boundaries_single:
  "stri_locate_boundaries I M [str_i] [boundary_i] qloc =
     map_sum id (\<lambda>ans. [ans]) (boundaries_result I M qloc str_i boundary_i)"
  by (cases "boundaries_result I M qloc str_i boundary_i")
     (simp_all add: stri_locate_boundaries_collect stri_recycling_rule_def cont_get_def)

text \<open>
  Claim C8. Keeping the iterator from one element to the next changes no result:
  a call answers the matrices \<open>ret\<close> exactly when \<open>ret\<close> has the length of the
  batch and, for every index, the call on that element and its label alone answers
  the one matrix \<open>ret ! i\<close>. The engine is the parameter \<open>I\<close>: what an iterator
  reports depends on its locale, its kind and the text bound to it.
\<close>

theorem iterator_reuse_transparent:
  "stri_locate_boundaries I M str boundary qloc = Inr ret \<longleftrightarrow>
     length ret = stri_recycling_rule (length str) (length boundary) \<and>
     (\<forall>i < length ret.
        stri_locate_boundaries I M [cont_get str i] [cont_get boundary i] qloc = Inr [ret ! i])"
proof -
  let ?n = "stri_recycling_rule (length str) (length boundary)"
  let ?r = "\<lambda>i. boundaries_result I M qloc (cont_get str i) (cont_get boundary i)"
  have single: "stri_locate_boundaries I M [cont_get str i] [cont_get boundary i] qloc = Inr [a]
      \<longleftrightarrow> ?r i = Inr a" for i a
    by (cases "?r i") (simp_all add: stri_locate_boundaries_single)
  have "stri_locate_boundaries I M str boundary qloc = Inr ret \<longleftrightarrow> map ?r [0..<?n] = map Inr ret"
    by (simp add: stri_locate_boundaries_collect collect_results_Inr)
  also have "\<dots> \<longleftrightarrow> length ret = ?n \<and> (\<forall>i < length ret. ?r i = Inr (ret ! i))"
    by (auto simp: list_eq_iff_nth_eq)
  finally show ?thesis by (simp add: single)
qed


theorem iterator_reuse_transparent_witness:
  "stri_locate_boundaries ascii_brk ascii_index
       [Some ''Hi, you'', Some ''ab'', Some ''A b. C'', Some ''x-y'']
       [Some ''word'', Some ''word'', Some ''sentence'', Some ''word''] ''en'' =
     Inr [Matrix [(1, 2), (3, 3), (4, 4), (5, 7)], Matrix [(1, 2)], Matrix [(1, 6)],
          Matrix [(1, 1), (2, 2), (3, 3)]]
   \<and> stri_locate_boundaries ascii_brk ascii_index [Some ''Hi, you''] [Some ''word''] ''en'' =
     Inr [Matrix [(1, 2), (3, 3), (4, 4), (5, 7)]]
   \<and> stri_locate_boundaries ascii_brk ascii_index [Some ''ab''] [Some ''word''] ''en'' =
     Inr [Matrix [(1, 2)]]
   \<and> stri_locate_boundaries ascii_brk ascii_index [Some ''A b. C''] [Some ''sentence''] ''en'' =
     Inr [Matrix [(1, 6)]]
   \<and> stri_locate_boundaries ascii_brk ascii_index [Some ''x-y''] [Some ''word''] ''en'' =
     Inr [Matrix [(1, 1), (2, 2), (3, 3)]]"
proof -
  let ?str = "[Some ''Hi, you'', Some ''ab'', Some ''A b. C'', Some ''x-y'']"
  let ?boundary = "[Some ''word'', Some ''word'', Some ''sentence'', Some ''word'']"
  let ?ret = "[Matrix [(1, 2), (3, 3), (4, 4), (5, 7)], Matrix [(1, 2)], Matrix [(1, 6)],
          Matrix [(1, 1), (2, 2), (3, 3)]]"
  have batch: "stri_locate_boundaries ascii_brk ascii_index ?str ?boundary ''en'' = Inr ?ret"
    by code_simp
  with iterator_reuse_transparent [of ascii_brk ascii_index ?str ?boundary "''en''" ?ret]
  have alone: "\<forall>i < length ?ret.
      stri_locate_boundaries ascii_brk ascii_index [cont_get ?str i] [cont_get ?boundary i] ''en''
        = Inr [?ret ! i]"
    by blast
  from alone [rule_format, of 0] alone [rule_format, of 1] alone [rule_format, of 2]
    alone [rule_format, of 3] batch
  show ?thesis by (simp add: cont_get_def)
qed

subsection \<open>Labels and missing values\<close>

lemma boundaries_result_errors:
  "boundaries_result I M loc str_i boundary_i = Inl e \<Longrightarrow>
   e = MSG_INCORRECT_MATCH_OPTION \<or> (\<exists>status. U_FAILURE status \<and> e = StriException_status status)"
  by (cases str_i; cases boundary_i)
     (auto simp: boundaries_result_def Let_def split: if_splits)






text \<open>
  Claim C5. For an element whose text is \<open>NA\<close>, whose label is \<open>NA\<close> or whose text
  is empty, the body of the loop answers the \<open>NA\<close> matrix and leaves \<open>briter\<close> and
  \<open>last_boundary\<close> as they were, whatever the engine \<open>I\<close> is: nothing of ICU is
  called. The loop goes on with the next index from the same iterator, and the
  matrix at that index of a call's result is the \<open>NA\<close> matrix.
\<close>

theorem NA_or_empty_short_circuits:
  "(str_i = None \<or> boundary_i = None \<or> str_i = Some [] \<longrightarrow>
      boundaries_elem I M loc st str_i boundary_i = Inr (NA_matrix, st))
   \<and> (cont_get str i = None \<or> cont_get boundary i = None \<or> cont_get str i = Some [] \<longrightarrow>
      boundaries_elems I M loc str boundary (i # idx) st =
        map_sum id (\<lambda>ret. NA_matrix # ret) (boundaries_elems I M loc str boundary idx st))
   \<and> (stri_locate_boundaries I M str boundary qloc = Inr ret \<and> i < length ret
        \<and> (cont_get str i = None \<or> cont_get boundary i = None \<or> cont_get str i = Some []) \<longrightarrow>
      ret ! i = NA_matrix)"
proof (intro conjI impI)
  assume "str_i = None \<or> boundary_i = None \<or> str_i = Some []"
  then show "boundaries_elem I M loc st str_i boundary_i = Inr (NA_matrix, st)"
    by (rule boundaries_elem_NA)
next
  assume "cont_get str i = None \<or> cont_get boundary i = None \<or> cont_get str i = Some []"
  then have "boundaries_elem I M loc st (cont_get str i) (cont_get boundary i) = Inr (NA_matrix, st)"
    by (rule boundaries_elem_NA)
  then show "boundaries_elems I M loc str boundary (i # idx) st =
        map_sum id (\<lambda>ret. NA_matrix # ret) (boundaries_elems I M loc str boundary idx st)"
    by (cases "boundaries_elems I M loc str boundary idx st") simp_all
next
  let ?n = "stri_recycling_rule (length str) (length boundary)"
  let ?r = "\<lambda>i. boundaries_result I M qloc (cont_get str i) (cont_get boundary i)"
  assume a: "stri_locate_boundaries I M str boundary qloc = Inr ret \<and> i < length ret
        \<and> (cont_get str i = None \<or> cont_get boundary i = None \<or> cont_get str i = Some [])"
  then have m: "map ?r [0..<?n] = map Inr ret"
    by (simp add: stri_locate_boundaries_collect collect_results_Inr)
  then have len: "length ret = ?n" by (metis length_map length_upt minus_nat.diff_0)
  from a have "?r i = Inr NA_matrix" by (simp add: boundaries_result_NA)
  moreover from m a len have "?r i = Inr (ret ! i)"
    by (metis (no_types, lifting) add_0 nth_map nth_upt length_map)
  ultimately show "ret ! i = NA_matrix" by simp
qed

theorem NA_or_empty_short_circuits_witness:
  "boundaries_elem ascii_brk ascii_index ''en'' (Some (createInstance ''en'' 3), 3) None (Some ''word'')
     = Inr (NA_matrix, Some (createInstance ''en'' 3), 3)
   \<and> boundaries_elems ascii_brk ascii_index ''en'' [Some ''ab'', Some []] [Some ''word''] [1, 0]
       (None, - 1) =
     map_sum id (\<lambda>ret. NA_matrix # ret)
       (boundaries_elems ascii_brk ascii_index ''en'' [Some ''ab'', Some []] [Some ''word''] [0]
          (None, - 1))
   \<and> stri_locate_boundaries ascii_brk ascii_index [Some ''ab'', None, Some [], Some ''cd'']
       [Some ''word'', Some ''word'', Some ''sentence'', None] ''en'' =
     Inr [Matrix [(1, 2)], NA_matrix, NA_matrix, NA_matrix]
   \<and> [Matrix [(1, 2)], NA_matrix, NA_matrix, NA_matrix] ! 3 = NA_matrix"
proof -
  let ?str = "[Some ''ab'', None, Some [], Some ''cd'']"
  let ?boundary = "[Some ''word'', Some ''word'', Some ''sentence'', None]"
  let ?ret = "[Matrix [(1, 2)], NA_matrix, NA_matrix, NA_matrix]"
  have 1: "boundaries_elem ascii_brk ascii_index ''en'' (Some (createInstance ''en'' 3), 3) None
      (Some ''word'') = Inr (NA_matrix, Some (createInstance ''en'' 3), 3)"
    using NA_or_empty_short_circuits [of None "Some ''word''" ascii_brk ascii_index "''en''"
        "(Some (createInstance ''en'' 3), 3)"]
    by simp
  have 2: "boundaries_elems ascii_brk ascii_index ''en'' [Some ''ab'', Some []] [Some ''word''] [1, 0]
       (None, - 1) =
     map_sum id (\<lambda>ret. NA_matrix # ret)
       (boundaries_elems ascii_brk ascii_index ''en'' [Some ''ab'', Some []] [Some ''word''] [0]
          (None, - 1))"
    by (rule NA_or_empty_short_circuits [where I = ascii_brk and M = ascii_index
          and loc = "''en''" and st = "(None, - 1)" and str = "[Some ''ab'', Some []]" and i = 1
          and boundary = "[Some ''word'']" and idx = "[0]",
          THEN conjunct2, THEN conjunct1, THEN mp])
       (simp add: cont_get_def)
  have batch: "stri_locate_boundaries ascii_brk ascii_index ?str ?boundary ''en'' = Inr ?ret"
    by code_simp
  have 3: "?ret ! 3 = NA_matrix"
    by (rule NA_or_empty_short_circuits [where I = ascii_brk and M = ascii_index
          and qloc = "''en''" and str = ?str and i = 3 and boundary = ?boundary and ret = ?ret,
          THEN conjunct2, THEN conjunct2, THEN mp])
       (simp add: batch cont_get_def)
  from 1 2 batch 3 show ?thesis by simp
qed

subsection \<open>Words\<close>

lemma words_text_result:
  assumes "bi_kind h = kind" "bi_loc h = loc"
  shows "\<exists>h'. (case briter_first I (briter_setText I h s) of
           (last_match, briter) \<Rightarrow> words_matches briter last_match []) =
         (map fst (filter (\<lambda>(iv, st). st \<noteq> UBRK_WORD_NONE) (engine_intervals I loc kind s)), h')
       \<and> bi_kind h' = kind \<and> bi_loc h' = loc"
proof -
  define h1 where "h1 = snd (briter_first I (briter_setText I h s))"
  have f: "briter_first I (briter_setText I h s) = (brk_first I loc kind s, h1)"
    using assms by (simp add: h1_def briter_first_def briter_setText_def)
  have p: "bi_pending h1 = brk_next I loc kind s" and k: "bi_kind h1 = kind" "bi_loc h1 = loc"
    using assms by (simp_all add: h1_def briter_first_def briter_setText_def)
  have "fst (words_matches h1 (brk_first I loc kind s) []) =
      map fst (filter (\<lambda>(iv, st). st \<noteq> UBRK_WORD_NONE) (engine_intervals I loc kind s))"
    by (simp add: words_matches_fst p engine_intervals_def)
  moreover have "bi_kind (snd (words_matches h1 (brk_first I loc kind s) [])) = kind"
    "bi_loc (snd (words_matches h1 (brk_first I loc kind s) [])) = loc"
    using words_matches_kind [of h1 "brk_first I loc kind s" "[]"] k by simp_all
  ultimately show ?thesis using f
    by (cases "words_matches h1 (brk_first I loc kind s) []") auto
qed

lemma words_elem_result:
  assumes "bi_kind h = 3" "bi_loc h = loc"
  shows "map_sum id fst (words_elem I M h str_i) = words_result I M loc str_i
         \<and> (\<forall>ans h'. words_elem I M h str_i = Inr (ans, h') \<longrightarrow> bi_kind h' = 3 \<and> bi_loc h' = loc)"
proof (cases str_i)
  case None
  with assms show ?thesis by (simp add: words_elem_def words_result_def)
next
  case (Some s)
  from words_text_result [OF assms, of I s]
  obtain h' where t: "(case briter_first I (briter_setText I h s) of
           (last_match, briter) \<Rightarrow> words_matches briter last_match []) =
         (map fst (filter (\<lambda>(iv, st). st \<noteq> UBRK_WORD_NONE) (engine_intervals I loc 3 s)), h')"
    and h': "bi_kind h' = 3" "bi_loc h' = loc" by blast
  let ?kept = "map fst (filter (\<lambda>(iv, st). st \<noteq> UBRK_WORD_NONE) (engine_intervals I loc 3 s))"
  have body: "(case briter_first I (briter_setText I h s) of
             (last_match, briter) \<Rightarrow>
               (case words_matches briter last_match [] of
                  (occurences, briter) \<Rightarrow>
                    if occurences = [] then Inr (NA_matrix, briter)
                    else Inr (Matrix (M s occurences 1 0), briter))) =
           ((if ?kept = [] then Inr (NA_matrix, h') else Inr (Matrix (M s ?kept 1 0), h'))
             :: error + locate_result \<times> BreakIterator)"
    using t by (auto split: prod.splits)
  show ?thesis
    using Some assms h'
    by (simp add: words_elem_def words_result_def body Let_def)
qed

lemma words_elems_collect:
  "bi_kind h = 3 \<Longrightarrow> bi_loc h = loc \<Longrightarrow>
   words_elems I M str h = collect_results (map (words_result I M loc) str)"
proof (induction str arbitrary: h)
  case Nil
  show ?case by simp
next
  case (Cons str_i str)
  note r = words_elem_result [OF Cons.prems, of I M str_i]
  show ?case
  proof (cases "words_elem I M h str_i")
    case (Inl e)
    with r show ?thesis by (simp flip: r [THEN conjunct1])
  next
    case (Inr p)
    obtain ans h' where p: "p = (ans, h')" by (cases p) auto
    with Inr r have "bi_kind h' = 3" "bi_loc h' = loc" by auto
    from Cons.IH [OF this] Inr p r show ?thesis by (simp flip: r [THEN conjunct1])
  qed
qed

lemma stri_locate_words_collect:
  "stri_locate_words I M str qloc =
     (if U_FAILURE (createInstance_status I qloc 3)
      then Inl (StriException_status (createInstance_status I qloc 3))
      else collect_results (map (words_result I M qloc) str))"
  by (simp add: stri_locate_words_def Let_def createInstance_def
      words_elems_collect [where loc = qloc])

lemma words_result_errors:
  "words_result I M loc str_i = Inl e \<Longrightarrow> \<exists>status. e = StriException_status status"
  by (cases str_i) (auto simp: words_result_def Let_def split: if_splits)

text \<open>
  Claim C4. For an element of \<open>stri_locate_words\<close> that is not \<open>NA\<close>, the intervals
  handed to the result are the candidate intervals of the word iterator whose rule
  status is not \<open>UBRK_WORD_NONE\<close>, in their order; when none is left the element's
  result is the \<open>NA\<close> matrix, not a matrix without rows.
\<close>

theorem words_drop_no_word_intervals:
  "stri_locate_words I M str qloc = Inr ret \<and> i < length str \<and> str ! i = Some s \<longrightarrow>
     ret ! i =
       (let kept = map fst (filter (\<lambda>(iv, st). st \<noteq> UBRK_WORD_NONE)
                              (engine_intervals I qloc 3 s))
        in if kept = [] then NA_matrix else Matrix (M s kept 1 0))"
proof
  assume a: "stri_locate_words I M str qloc = Inr ret \<and> i < length str \<and> str ! i = Some s"
  then have "collect_results (map (words_result I M qloc) str) = Inr ret"
    by (simp add: stri_locate_words_collect split: if_splits)
  then have m: "map (words_result I M qloc) str = map Inr ret"
    by (simp add: collect_results_Inr)
  then have "length ret = length str" by (metis length_map)
  with m a have "words_result I M qloc (Some s) = Inr (ret ! i)"
    by (metis nth_map)
  moreover from a have "\<not> U_FAILURE (utext_openUTF8_status I s)"
    "\<not> U_FAILURE (setText_status I qloc 3 s)"
    using calculation by (auto simp: words_result_def split: if_splits)
  ultimately show "ret ! i =
       (let kept = map fst (filter (\<lambda>(iv, st). st \<noteq> UBRK_WORD_NONE)
                              (engine_intervals I qloc 3 s))
        in if kept = [] then NA_matrix else Matrix (M s kept 1 0))"
    by (auto simp: words_result_def Let_def)
qed

theorem words_drop_no_word_intervals_witness:
  "stri_locate_words ascii_brk ascii_index [Some ''Hello, world!'', Some '', ''] ''en'' =
     Inr [Matrix [(1, 5), (8, 12)], NA_matrix]
   \<and> engine_intervals ascii_brk ''en'' 3 ''Hello, world!'' =
       [((0, 5), 200), ((5, 6), 0), ((6, 7), 0), ((7, 12), 200), ((12, 13), 0)]
   \<and> engine_intervals ascii_brk ''en'' 3 '', '' = [((0, 1), 0), ((1, 2), 0)]"
proof -
  let ?str = "[Some ''Hello, world!'', Some '', '']"
  let ?ret = "[Matrix [(1, 5), (8, 12)], NA_matrix]"
  have batch: "stri_locate_words ascii_brk ascii_index ?str ''en'' = Inr ?ret"
    by code_simp
  have e0: "engine_intervals ascii_brk ''en'' 3 ''Hello, world!'' =
       [((0, 5), 200), ((5, 6), 0), ((6, 7), 0), ((7, 12), 200), ((12, 13), 0)]"
    by code_simp
  have e1: "engine_intervals ascii_brk ''en'' 3 '', '' = [((0, 1), 0), ((1, 2), 0)]"
    by code_simp
  from words_drop_no_word_intervals [of ascii_brk ascii_index ?str "''en''" ?ret 0 "''Hello, world!''"]
    words_drop_no_word_intervals [of ascii_brk ascii_index ?str "''en''" ?ret 1 "'', ''"]
    batch e0 e1
  show ?thesis by simp
qed

subsection \<open>The chain of intervals\<close>














subsection \<open>The line feed and the boundary location\<close>

lemma stri_locate_boundaries_error:
  assumes "stri_locate_boundaries I M str boundary qloc = Inl e"
  shows "e = MSG_INCORRECT_MATCH_OPTION
    \<or> (\<exists>status. U_FAILURE status \<and> e = StriException_status status)"
proof -
  let ?r = "\<lambda>i. boundaries_result I M qloc (cont_get str i) (cont_get boundary i)"
  from assms have "Inl e \<in> set (map ?r [0..<stri_recycling_rule (length str) (length boundary)])"
    by (auto simp: stri_locate_boundaries_collect dest: collect_results_Inl)
  then obtain j where "?r j = Inl e" by auto
  then show ?thesis by (rule boundaries_result_errors)
qed

lemma stri_locate_words_error:
  "stri_locate_words I M str qloc = Inl e \<Longrightarrow> \<exists>status. e = StriException_status status"
  by (auto simp: stri_locate_words_collect split: if_splits
      dest!: collect_results_Inl dest: words_result_errors [OF sym])

text \<open>
  Claim C1, as stated, fails for the boundary location: neither
  \<open>stri_locate_boundaries\<close> nor \<open>stri_locate_words\<close> looks for a line feed. The text
  \<open>ab\<close>, line feed, \<open>cd\<close> is handed to the engine like any other, and the call
  answers its intervals.
\<close>

theorem line_feed_boundaries_counterexample:
  "CHR 0x0A \<in> set (''ab'' @ [CHR 0x0A] @ ''cd'')
   \<and> stri_locate_boundaries ascii_brk ascii_index [Some (''ab'' @ [CHR 0x0A] @ ''cd'')]
       [Some ''character''] ''en'' =
     Inr [Matrix [(1, 1), (2, 2), (3, 3), (4, 4), (5, 5)]]
   \<and> stri_locate_words ascii_brk ascii_index [Some (''ab'' @ [CHR 0x0A] @ ''cd'')] ''en'' =
     Inr [Matrix [(1, 2), (4, 5)]]"
  by code_simp

text \<open>
  Claim C1, amended. If an element that is not \<open>NA\<close> holds a line feed anywhere,
  \<open>stri_stats_general\<close> and \<open>stri_stats_latex\<close> fail as a whole with
  \<open>MSG__NEWLINE_FOUND\<close> and answer no record. \<open>stri_locate_boundaries\<close> and
  \<open>stri_locate_words\<close> never fail with that error. ICU is asked only that
  \<open>U8_NEXT\<close> consumes trail bytes behind a lead byte, so that the line feed is read
  as a code point of its own.
\<close>

theorem line_feed_aborts_statistics:
  assumes "u8_trail_bytes U" and "Some cs \<in> set str" and "CHR 0x0A \<in> set cs"
  shows "stri_stats_general U str = Inl MSG_NEWLINE_FOUND
       \<and> stri_stats_latex U str = Inl MSG_NEWLINE_FOUND
       \<and> stri_locate_boundaries I M str boundary qloc \<noteq> Inl MSG_NEWLINE_FOUND
       \<and> stri_locate_words I M str qloc \<noteq> Inl MSG_NEWLINE_FOUND"
proof (intro conjI)
  from assms show "stri_stats_general U str = Inl MSG_NEWLINE_FOUND"
    unfolding stri_stats_general_def by (rule general_elems_newline)
  from assms show "stri_stats_latex U str = Inl MSG_NEWLINE_FOUND"
    unfolding stri_stats_latex_def by (rule latex_elems_newline)
  show "stri_locate_boundaries I M str boundary qloc \<noteq> Inl MSG_NEWLINE_FOUND"
    by (auto dest: stri_locate_boundaries_error)
  show "stri_locate_words I M str qloc \<noteq> Inl MSG_NEWLINE_FOUND"
    by (auto dest: stri_locate_words_error)
qed

theorem line_feed_aborts_statistics_witness:
  "u8_trail_bytes ascii_api
   \<and> stri_stats_general ascii_api [Some ''ab'', None, Some (''ab'' @ [CHR 0x0A] @ ''cd'')] =
       Inl MSG_NEWLINE_FOUND
   \<and> stri_stats_latex ascii_api [Some ''ab'', None, Some (''ab'' @ [CHR 0x0A] @ ''cd'')] =
       Inl MSG_NEWLINE_FOUND"
proof -
  have t: "u8_trail_bytes ascii_api" by (simp add: u8_trail_bytes_def ascii_api_def)
  from line_feed_aborts_statistics [OF t, of "''ab'' @ [CHR 0x0A] @ ''cd''"
      "[Some ''ab'', None, Some (''ab'' @ [CHR 0x0A] @ ''cd'')]"] t
  show ?thesis by simp
qed

end
